theory Spec2Isabelle
  imports Complex_Main "HOL-Library.Multiset"
begin

section \<open>Exceptions and Python primitives\<close>

text \<open>
  The exceptions that the modelled part of \<^verbatim>\<open>merlin/loader/loader_base.py\<close> can raise.
  \<open>SourceError\<close> stands for any exception raised by an external collaborator (the dataset
  iterator, a tensor primitive); its argument identifies the exception object.
\<close>

datatype exn =
    ZeroDivisionError
  | IndexError
  | KeyError string
  | ValueError string
  | SourceError string

text \<open>
  Normalisation of one bound of a Python slice over a sequence of length \<open>n\<close>: a negative
  bound counts from the end, and every bound is clipped to \<open>[0, n]\<close>.
\<close>

definition py_clamp :: "nat \<Rightarrow> int \<Rightarrow> nat" where
  "py_clamp n i = (if i < 0 then nat (max (i + int n) 0) else min (nat i) n)"

text \<open>\<^verbatim>\<open>xs[i:]\<close>, \<^verbatim>\<open>xs[:i]\<close> and \<^verbatim>\<open>xs[i:j]\<close> (also \<^verbatim>\<open>df.iloc[i:]\<close>, \<^verbatim>\<open>df.iloc[:i]\<close>).\<close>

definition slice_from :: "'a list \<Rightarrow> int \<Rightarrow> 'a list" where
  "slice_from xs i = drop (py_clamp (length xs) i) xs"

definition slice_to :: "'a list \<Rightarrow> int \<Rightarrow> 'a list" where
  "slice_to xs i = take (py_clamp (length xs) i) xs"

definition slice :: "'a list \<Rightarrow> int \<Rightarrow> int \<Rightarrow> 'a list" where
  "slice xs i j =
     (let a = py_clamp (length xs) i; b = py_clamp (length xs) j
      in take (b - a) (drop a xs))"

text \<open>\<^verbatim>\<open>int(x)\<close> on a float: truncation toward zero.\<close>

definition py_int :: "real \<Rightarrow> int" where
  "py_int x = (if 0 \<le> x then \<lfloor>x\<rfloor> else \<lceil>x\<rceil>)"

text \<open>
  \<^verbatim>\<open>def _num_steps(num_samples, step_size): return math.ceil(num_samples / step_size)\<close>

  The true division \<^verbatim>\<open>/\<close> is taken over the reals: the quotient of two integers is exact.
  (The quotient as a Python float has the same ceiling and the same integer part as long
  as the row count and the step size stay below \<open>2^52\<close>, which the row count of a table
  held in memory does.)
\<close>

definition num_steps :: "int \<Rightarrow> int \<Rightarrow> exn + int" where
  "num_steps num_samples step_size =
     (if step_size = 0 then Inl ZeroDivisionError
      else Inr \<lceil>real_of_int num_samples / real_of_int step_size\<rceil>)"

section \<open>LoaderBase: batch arithmetic\<close>

text \<open>
  \<^verbatim>\<open>LoaderBase._get_segment_lengths\<close>:
  \<^verbatim>\<open>
    num_full_batches = _num_steps(num_samples, self.batch_size) - 1
    idx = [self.batch_size for _ in range(num_full_batches)]
    idx.append(num_samples - num_full_batches * self.batch_size)
    return idx
  \<close>
  \<^verbatim>\<open>range(k)\<close> is empty for \<open>k \<le> 0\<close>, as \<open>replicate (nat k)\<close> is.
\<close>

definition get_segment_lengths :: "int \<Rightarrow> int \<Rightarrow> exn + int list" where
  "get_segment_lengths batch_size num_samples =
     (case num_steps num_samples batch_size of
        Inl e \<Rightarrow> Inl e
      | Inr steps \<Rightarrow>
          (let num_full_batches = steps - 1;
               idx = replicate (nat num_full_batches) batch_size
           in Inr (idx @ [num_samples - num_full_batches * batch_size])))"

text \<open>
  \<^verbatim>\<open>LoaderBase.__len__\<close>, with \<^verbatim>\<open>self._buff_len\<close> (the row count reported by the data
  iterator of this shard and epoch setting), \<^verbatim>\<open>self.batch_size\<close> and \<^verbatim>\<open>self.drop_last\<close>
  as arguments:
  \<^verbatim>\<open>
    batches = _num_steps(self._buff_len, self.batch_size)
    if self.drop_last and self._buff_len % self.batch_size > 0:
        batches = batches - 1
    return batches
  \<close>
  Python's \<^verbatim>\<open>%\<close> on integers takes the sign of the divisor, as \<open>mod\<close> on \<open>int\<close> does.
\<close>

definition loader_len :: "int \<Rightarrow> int \<Rightarrow> bool \<Rightarrow> exn + int" where
  "loader_len buff_len batch_size drop_last =
     (case num_steps buff_len batch_size of
        Inl e \<Rightarrow> Inl e
      | Inr batches \<Rightarrow>
          Inr (if drop_last \<and> buff_len mod batch_size > 0 then batches - 1 else batches))"

text \<open>
  \<^verbatim>\<open>LoaderBase._indices_for_process\<close>, with \<^verbatim>\<open>self.indices\<close>, \<^verbatim>\<open>self.global_size\<close> and
  \<^verbatim>\<open>self.global_rank\<close> as arguments:
  \<^verbatim>\<open>
    if len(self.indices) < self.global_size:
        warnings.warn(...)
        raise IndexError
    per_worker = _num_steps(len(self.indices), self.global_size)
    start = self.global_rank * per_worker
    return self.indices[start : start + per_worker].tolist()
  \<close>
\<close>

definition indices_for_process :: "nat list \<Rightarrow> int \<Rightarrow> int \<Rightarrow> exn + nat list" where
  "indices_for_process indices global_size global_rank =
     (if int (length indices) < global_size then Inl IndexError
      else case num_steps (int (length indices)) global_size of
        Inl e \<Rightarrow> Inl e
      | Inr per_worker \<Rightarrow>
          (let start = global_rank * per_worker
           in Inr (slice indices start (start + per_worker))))"

text \<open>\<^verbatim>\<open>self.indices = cp.arange(self.dataset.npartitions)\<close>, as set by the constructor.\<close>

definition arange :: "nat \<Rightarrow> nat list" where
  "arange n = [0..<n]"

text \<open>
  The set of partition indices that rank \<open>r\<close> of \<open>S\<close> receives out of \<open>P\<close> partitions
  (empty when the call raises).
\<close>

definition shard_block :: "nat \<Rightarrow> int \<Rightarrow> int \<Rightarrow> nat set" where
  "shard_block P S r =
     (case indices_for_process (arange P) S r of Inl e \<Rightarrow> {} | Inr xs \<Rightarrow> set xs)"

section \<open>ChunkQueue: splitting a chunk at a batch boundary\<close>

text \<open>
  A table (dataframe) is the list of its rows, in positional order; \<^verbatim>\<open>reset_index\<close> only
  renumbers the index labels and leaves the rows and their order as they are.

  \<^verbatim>\<open>ChunkQueue.get_batch_div_chunk\<close>:
  \<^verbatim>\<open>
    spill_idx = int(chunks.shape[0] / batch_size) * batch_size
    spill = make_df(chunks.iloc[spill_idx:])
    chunks = make_df(chunks.iloc[:spill_idx])
    ...
    return chunks, spill
  \<close>
\<close>

definition get_batch_div_chunk :: "'a list \<Rightarrow> int \<Rightarrow> exn + ('a list \<times> 'a list)" where
  "get_batch_div_chunk chunks batch_size =
     (if batch_size = 0 then Inl ZeroDivisionError
      else
        (let spill_idx = py_int (real (length chunks) / real_of_int batch_size) * batch_size;
             spill = slice_from chunks spill_idx;
             chunks' = slice_to chunks spill_idx
         in Inr (chunks', spill)))"

section \<open>Batches of a chunk\<close>

text \<open>
  Modelled from the spec: \<^verbatim>\<open>_split_fn\<close> is abstract in \<^verbatim>\<open>LoaderBase\<close> (it raises
  \<^verbatim>\<open>NotImplementedError\<close>) and is supplied by the framework-specific subclass, which is
  not part of the sources. The spec names it as the tensor runtime's primitive
  \<^verbatim>\<open>split(tensor, sizes, axis) -> sequence of tensor\<close>: consecutive pieces of the given
  sizes along the row axis. Sizes that are negative or do not add up to the number of
  rows are refused by the runtime.
\<close>

fun split_rows :: "'a list \<Rightarrow> int list \<Rightarrow> 'a list list" where
  "split_rows xs [] = []"
| "split_rows xs (n # ns) = take (nat n) xs # split_rows (drop (nat n) xs) ns"

definition split_fn :: "'a list \<Rightarrow> int list \<Rightarrow> exn + 'a list list" where
  "split_fn tensor idx =
     (if list_all (\<lambda>n. 0 \<le> n) idx \<and> sum_list idx = int (length tensor)
      then Inr (split_rows tensor idx)
      else Inl (SourceError ''split''))"

text \<open>
  \<^verbatim>\<open>LoaderBase.make_tensors\<close>, at the level of rows. The chunk is the list of its rows and
  a batch is the list of the rows it holds; the column-wise layout of a batch (one tensor
  per dtype group, values and offsets of list columns) is cut at the same row boundaries
  \<^verbatim>\<open>split_idx\<close>, which is what the model keeps:
  \<^verbatim>\<open>
    split_idx = self._get_segment_lengths(len(gdf))
    ...
    batches = [[] for _ in range(len(split_idx))]
    for chunk in chunks:
        ...
        if len(split_idx) > 1 and chunk is not None:
            chunk = self._split_fn(chunk, split_idx)
        else:
            chunk = [chunk for _ in split_idx]
        ...
        for n, c in enumerate(chunk):
            ...
            batches[n].append(c)
    return (self._handle_tensors(batch, names) for batch in batches)
  \<close>
\<close>

definition make_tensors :: "int \<Rightarrow> 'a list \<Rightarrow> exn + 'a list list" where
  "make_tensors batch_size gdf =
     (case get_segment_lengths batch_size (int (length gdf)) of
        Inl e \<Rightarrow> Inl e
      | Inr split_idx \<Rightarrow>
          (if length split_idx > 1 then split_fn gdf split_idx
           else Inr (replicate (length split_idx) gdf)))"

section \<open>ChunkQueue\<close>

text \<open>
  What travels through \<^verbatim>\<open>q_out\<close>: the batches of one chunk, or an exception object.
\<close>

datatype 'a packet = Batches "'a list list" | Failure exn

text \<open>
  The state of a \<^verbatim>\<open>ChunkQueue\<close>. \<open>itr\<close> is the data iterator \<^verbatim>\<open>self.itr\<close>: the results
  of the successive \<^verbatim>\<open>next\<close> calls of one pass over it, each a partition (its rows) or an
  exception raised by the source. \<open>stop_event\<close> is the flag of \<^verbatim>\<open>self._stop_event\<close>.
  \<open>q_out\<close> holds the packets handed over and not yet taken by the consumer, oldest
  first.
\<close>

record 'a chunk_queue =
  num_parts :: int
  shuffle :: bool
  stop_event :: bool
  q_out :: "'a packet list"
  itr :: "(exn + 'a list) list"

definition stopped :: "'a chunk_queue \<Rightarrow> bool" where
  "stopped cq = stop_event cq"

definition empty_q :: "'a chunk_queue \<Rightarrow> bool" where
  "empty_q cq = (q_out cq = [])"

text \<open>
  \<^verbatim>\<open>ChunkQueue.put\<close>:
  \<^verbatim>\<open>
    while True:
        if self.stopped:
            return True
        try:
            self.q_out.put(packet, timeout=self.put_wait)
            return False
        except queue.Full:
            continue
  \<close>
  The queue is bounded (\<^verbatim>\<open>qsize = 1\<close>): on a full queue the producer retries until the
  consumer has taken the pending packet or the stop flag is set. The bound delays the
  hand-over and changes neither the packets handed over nor their order; the model
  records the hand-over and not the wait.
\<close>

definition put :: "'a chunk_queue \<Rightarrow> 'a packet \<Rightarrow> bool \<times> 'a chunk_queue" where
  "put cq packet =
     (if stopped cq then (True, cq)
      else (False, cq\<lparr>q_out := q_out cq @ [packet]\<rparr>))"

text \<open>
  \<^verbatim>\<open>ChunkQueue.get\<close>: the oldest packet; \<open>None\<close> when there is none yet (the call blocks).
\<close>

definition get :: "'a chunk_queue \<Rightarrow> ('a packet \<times> 'a chunk_queue) option" where
  "get cq = (case q_out cq of [] \<Rightarrow> None | p # ps \<Rightarrow> Some (p, cq\<lparr>q_out := ps\<rparr>))"

text \<open>\<^verbatim>\<open>ChunkQueue.stop\<close> and \<^verbatim>\<open>ChunkQueue.start\<close>.\<close>

definition cq_stop :: "'a chunk_queue \<Rightarrow> 'a chunk_queue" where
  "cq_stop cq = cq\<lparr>stop_event := True, q_out := []\<rparr>"

definition cq_start :: "'a chunk_queue \<Rightarrow> 'a chunk_queue" where
  "cq_start cq = cq\<lparr>stop_event := False\<rparr>"

text \<open>
  \<^verbatim>\<open>ChunkQueue.batch\<close>, a generator: the groups it yields, in order, ended by the exception
  of the source if \<^verbatim>\<open>next(itr)\<close> raises one.
  \<^verbatim>\<open>
    current = []
    while True:
        try:
            value = next(itr)
        except StopIteration:
            if len(current) > 0:
                yield current
            break
        current.append(value)
        if len(current) == self.num_parts:
            yield current
            current = []
  \<close>
\<close>

fun batch :: "int \<Rightarrow> (exn + 'a list) list \<Rightarrow> 'a list list \<Rightarrow> (exn + 'a list list) list" where
  "batch np [] current = (if length current > 0 then [Inr current] else [])"
| "batch np (Inl e # rest) current = [Inl e]"
| "batch np (Inr v # rest) current =
     (let current' = current @ [v]
      in if int (length current') = np then Inr current' # batch np rest []
         else batch np rest current')"

text \<open>How a run of \<^verbatim>\<open>chunk_logic\<close>'s loop ends.\<close>

datatype 'a loop_end = Exhausted "'a list option" | Returned | Raised exn

text \<open>
  The loop of \<^verbatim>\<open>ChunkQueue.chunk_logic\<close> over the groups of \<^verbatim>\<open>self.batch(itr)\<close>, with the
  current \<^verbatim>\<open>spill\<close> (\<open>None\<close> before the first round). \<open>shuffle_df\<close> is the row shuffle of
  \<^verbatim>\<open>merlin.io\<close>, \<open>batch_size\<close> is \<^verbatim>\<open>self.dataloader.batch_size\<close>.
  \<^verbatim>\<open>
    for chunks in self.batch(itr):
        if self.stopped:
            return
        if spill is not None and not spill.empty:
            chunks.insert(0, spill)
        chunks = concat(chunks)
        chunks.reset_index(drop=True, inplace=True)
        chunks, spill = self.get_batch_div_chunk(chunks, self.dataloader.batch_size)
        if self.shuffle:
            chunks = shuffle_df(chunks)
        if len(chunks) > 0:
            chunks = self.dataloader.make_tensors(chunks, self.dataloader._use_nnz)
            if self.put(chunks):
                return
        chunks = None
  \<close>
\<close>

fun chunk_loop ::
  "('a list \<Rightarrow> 'a list) \<Rightarrow> int \<Rightarrow> 'a chunk_queue \<Rightarrow> 'a list option \<Rightarrow>
   (exn + 'a list list) list \<Rightarrow> 'a loop_end \<times> 'a chunk_queue" where
  "chunk_loop shuffle_df batch_size cq spill [] = (Exhausted spill, cq)"
| "chunk_loop shuffle_df batch_size cq spill (Inl e # groups) = (Raised e, cq)"
| "chunk_loop shuffle_df batch_size cq spill (Inr chunks # groups) =
     (if stopped cq then (Returned, cq)
      else
        (let chunks1 = (case spill of
                          None \<Rightarrow> chunks
                        | Some sp \<Rightarrow> if sp \<noteq> [] then sp # chunks else chunks)
         in case get_batch_div_chunk (concat chunks1) batch_size of
              Inl e \<Rightarrow> (Raised e, cq)
            | Inr (chunks2, spill') \<Rightarrow>
                (let chunks3 = (if shuffle cq then shuffle_df chunks2 else chunks2)
                 in if length chunks3 > 0 then
                      (case make_tensors batch_size chunks3 of
                         Inl e \<Rightarrow> (Raised e, cq)
                       | Inr batches \<Rightarrow>
                           (case put cq (Batches batches) of
                              (True, cq') \<Rightarrow> (Returned, cq')
                            | (False, cq') \<Rightarrow>
                                chunk_loop shuffle_df batch_size cq' (Some spill') groups))
                    else chunk_loop shuffle_df batch_size cq (Some spill') groups)))"

text \<open>
  \<^verbatim>\<open>ChunkQueue.chunk_logic\<close>: the loop, then the final spill:
  \<^verbatim>\<open>
    spill = None
    for chunks in self.batch(itr): ...
    # takes care final batch, which is less than batch size
    if not self.dataloader.drop_last and spill is not None and not spill.empty:
        spill = self.dataloader.make_tensors(spill, self.dataloader._use_nnz)
        self.put(spill)
  \<close>
  The result is the exception that escapes, if any, and the queue.
\<close>

definition chunk_logic ::
  "('a list \<Rightarrow> 'a list) \<Rightarrow> int \<Rightarrow> bool \<Rightarrow> 'a chunk_queue \<Rightarrow>
   (exn + 'a list) list \<Rightarrow> exn option \<times> 'a chunk_queue" where
  "chunk_logic shuffle_df batch_size drop_last cq it =
     (case chunk_loop shuffle_df batch_size cq None (batch (num_parts cq) it []) of
        (Raised e, cq') \<Rightarrow> (Some e, cq')
      | (Returned, cq') \<Rightarrow> (None, cq')
      | (Exhausted spill, cq') \<Rightarrow>
          (case spill of
             None \<Rightarrow> (None, cq')
           | Some sp \<Rightarrow>
               (if \<not> drop_last \<and> sp \<noteq> [] then
                  (case make_tensors batch_size sp of
                     Inl e \<Rightarrow> (Some e, cq')
                   | Inr batches \<Rightarrow> (None, snd (put cq' (Batches batches))))
                else (None, cq'))))"

text \<open>
  \<^verbatim>\<open>ChunkQueue.load_chunks\<close>, the body of the worker thread:
  \<^verbatim>\<open>
    try:
        itr = iter(self.itr)
        ... self.chunk_logic(itr)
    except Exception as e:
        self.put(e)
  \<close>
\<close>

definition load_chunks ::
  "('a list \<Rightarrow> 'a list) \<Rightarrow> int \<Rightarrow> bool \<Rightarrow> 'a chunk_queue \<Rightarrow> 'a chunk_queue" where
  "load_chunks shuffle_df batch_size drop_last cq =
     (case chunk_logic shuffle_df batch_size drop_last cq (itr cq) of
        (Some e, cq') \<Rightarrow> snd (put cq' (Failure e))
      | (None, cq') \<Rightarrow> cq')"

text \<open>
  The batches that the consumer receives from a queue: the batches of every packet, in the
  order of hand-over.
\<close>

fun packet_batches :: "'a packet \<Rightarrow> 'a list list" where
  "packet_batches (Batches bs) = bs"
| "packet_batches (Failure e) = []"

definition queued_batches :: "'a chunk_queue \<Rightarrow> 'a list list" where
  "queued_batches cq = concat (map packet_batches (q_out cq))"

text \<open>The rows carried in \<^verbatim>\<open>spill\<close>: none before the first round.\<close>

definition spill_rows :: "'a list option \<Rightarrow> 'a list" where
  "spill_rows spill = (case spill of None \<Rightarrow> [] | Some sp \<Rightarrow> sp)"

section \<open>Schema and dataset\<close>

text \<open>
  What the loader reads of a column's schema (\<^verbatim>\<open>merlin.schema.ColumnSchema\<close>): the dtype, the
  role tags, the list and ragged flags, and the value-count bounds \<open>(min, max)\<close> when the
  schema gives them (\<open>None\<close> is the falsy \<^verbatim>\<open>value_count\<close>).
\<close>

datatype tag = CATEGORICAL | CONTINUOUS | TARGET | OTHER_TAG

record col_spec =
  dtype :: string
  tags :: "tag list"
  is_list :: bool
  is_ragged :: bool
  value_count :: "(int \<times> int) option"

text \<open>
  \<^verbatim>\<open>schema.column_schemas.items()\<close>: the columns by name, in the order of the schema.
\<close>

type_synonym schema = "(string \<times> col_spec) list"

text \<open>\<^verbatim>\<open>schema.select_by_tag(t).column_names\<close>.\<close>

definition select_by_tag :: "tag \<Rightarrow> schema \<Rightarrow> string list" where
  "select_by_tag t sch = map fst (filter (\<lambda>(name, spec). t \<in> set (tags spec)) sch)"

text \<open>
  The dataset: its schema and its partitions (\<^verbatim>\<open>npartitions\<close> of them), each the rows it
  holds or the exception that reading it raises.
\<close>

record 'a dataset =
  ds_schema :: schema
  ds_parts :: "(exn + 'a list) list"

definition npartitions :: "'a dataset \<Rightarrow> nat" where
  "npartitions ds = length (ds_parts ds)"

text \<open>
  Modelled from the spec: \<^verbatim>\<open>dataset.to_iter\<close> belongs to \<^verbatim>\<open>merlin.io\<close>, outside the sources.
  The spec gives it as \<^verbatim>\<open>iterate(indices, epochs, columns) -> sequence of row-groups\<close>: the
  partitions at the given indices, in that order, once per epoch.
\<close>

definition to_iter :: "'a dataset \<Rightarrow> nat list \<Rightarrow> nat \<Rightarrow> (exn + 'a list) list" where
  "to_iter ds idxs eps =
     concat (replicate eps
       (map (\<lambda>i. if i < length (ds_parts ds) then ds_parts ds ! i else Inl IndexError) idxs))"

section \<open>LoaderBase: construction\<close>

text \<open>
  The state of a loader. \<open>shuffle_on\<close> is \<^verbatim>\<open>self.shuffle\<close>, \<open>epochs\<close> is \<^verbatim>\<open>self._epochs\<close>,
  \<open>buff\<close> is \<^verbatim>\<open>self.__buff\<close> (created on first use), \<open>batch_itr\<close> is the rest of
  \<^verbatim>\<open>self._batch_itr\<close>, and \<open>workers\<close> is \<^verbatim>\<open>self._workers\<close>, a thread being the flag that
  tells whether it is alive.
\<close>

record 'a loader =
  dataset :: "'a dataset"
  batch_size :: int
  shuffle_on :: bool
  parts_per_chunk :: int
  global_size :: int
  global_rank :: int
  drop_last :: bool
  indices :: "nat list"
  sparse_names :: "string list"
  sparse_max :: "string \<rightharpoonup> int"
  sparse_as_dense :: "string set"
  dtype_reverse_map :: "(string \<times> string list) list"
  epochs :: nat
  cat_names :: "string list"
  cont_names :: "string list"
  label_names :: "string list"
  num_rows_processed :: int
  buff :: "'a chunk_queue option"
  batch_itr :: "'a list list option"
  workers :: "bool list option"

text \<open>
  \<^verbatim>\<open>self.dtype_reverse_map\<close>, a dictionary from dtype to column names in insertion order:
  \<^verbatim>\<open>
    if col_spec.dtype not in self.dtype_reverse_map:
        self.dtype_reverse_map[col_spec.dtype] = [col_name]
    else:
        self.dtype_reverse_map[col_spec.dtype].append(col_name)
  \<close>
\<close>

definition add_dtype ::
  "(string \<times> string list) list \<Rightarrow> string \<Rightarrow> string \<Rightarrow> (string \<times> string list) list" where
  "add_dtype m d col_name =
     (if d \<notin> set (map fst m) then m @ [(d, [col_name])]
      else map (\<lambda>(k, names). if k = d then (k, names @ [col_name]) else (k, names)) m)"

text \<open>
  The loop of the constructor over the columns of the schema:
  \<^verbatim>\<open>
    for col_name, col_spec in dataset.schema.column_schemas.items():
        ... self.dtype_reverse_map ...
        if col_spec.is_list:
            self.sparse_names.append(col_name)
            value_count = col_spec.value_count
            if value_count and value_count.min == value_count.max:
                self.sparse_max[col_name] = value_count.max
            if not col_spec.is_ragged:
                self.sparse_as_dense.add(col_name)
                if not value_count:
                    raise ValueError(
                        f"Dense column {col_name} doesn't have the max value_count defined"
                        " in the schema")
  \<close>
\<close>

fun init_columns :: "schema \<Rightarrow> 'a loader \<Rightarrow> exn + 'a loader" where
  "init_columns [] ld = Inr ld"
| "init_columns ((col_name, spec) # rest) ld =
     (let ld1 = ld\<lparr>dtype_reverse_map := add_dtype (dtype_reverse_map ld) (dtype spec) col_name\<rparr>
      in if is_list spec then
           (let ld2 = ld1\<lparr>sparse_names := sparse_names ld1 @ [col_name]\<rparr>;
                ld3 = (case value_count spec of
                         None \<Rightarrow> ld2
                       | Some (vmin, vmax) \<Rightarrow>
                           if vmin = vmax
                           then ld2\<lparr>sparse_max := (sparse_max ld2)(col_name \<mapsto> vmax)\<rparr>
                           else ld2)
            in if \<not> is_ragged spec then
                 (let ld4 = ld3\<lparr>sparse_as_dense := insert col_name (sparse_as_dense ld3)\<rparr>
                  in if value_count spec = None then
                       Inl (ValueError (''Dense column '' @ col_name
                              @ '' doesn't have the max value_count defined in the schema''))
                     else init_columns rest ld4)
               else init_columns rest ld3)
         else init_columns rest ld1)"

text \<open>
  \<^verbatim>\<open>LoaderBase.__init__\<close>, for a dataset that has a schema, without transforms
  (\<^verbatim>\<open>transforms=None\<close>) and without a seed function; the device plays no part in what is
  modelled. \<^verbatim>\<open>global_size or 1\<close> and \<^verbatim>\<open>global_rank or 0\<close> replace \<^verbatim>\<open>None\<close> and \<open>0\<close>.
  After the loop over the columns:
  \<^verbatim>\<open>
    self._epochs = 1
    self.cat_names = dataset.schema.select_by_tag(Tags.CATEGORICAL).column_names
    self.cont_names = dataset.schema.select_by_tag(Tags.CONTINUOUS).column_names
    self.label_names = dataset.schema.select_by_tag(Tags.TARGET).column_names
    if len(list(self.dtype_reverse_map.keys())) == 0:
        raise ValueError(
            "Neither Categorical or Continuous columns were found by the dataloader. "
            "You must either specify the cat_names, cont_names and "
            "label_names properties or supply a schema.pbtxt file in dataset directory.")
    self.num_rows_processed = 0
    self.__buff = None
    self.__buff_len = None
    self._batch_itr = None
    self._workers = None
  \<close>
\<close>

definition or_default :: "int option \<Rightarrow> int \<Rightarrow> int" where
  "or_default v d = (case v of None \<Rightarrow> d | Some n \<Rightarrow> if n = 0 then d else n)"

definition init ::
  "'a dataset \<Rightarrow> int \<Rightarrow> bool \<Rightarrow> int \<Rightarrow> int option \<Rightarrow> int option \<Rightarrow> bool \<Rightarrow>
   exn + 'a loader" where
  "init ds bsz shuf ppc gsize grank dlast =
     (let ld0 = \<lparr>dataset = ds, batch_size = bsz, shuffle_on = shuf, parts_per_chunk = ppc,
                 global_size = or_default gsize 1, global_rank = or_default grank 0,
                 drop_last = dlast, indices = arange (npartitions ds),
                 sparse_names = [], sparse_max = Map.empty, sparse_as_dense = {},
                 dtype_reverse_map = [], epochs = 1,
                 cat_names = [], cont_names = [], label_names = [],
                 num_rows_processed = 0, buff = None, batch_itr = None, workers = None\<rparr>
      in case init_columns (ds_schema ds) ld0 of
           Inl e \<Rightarrow> Inl e
         | Inr ld1 \<Rightarrow>
             (let ld2 = ld1\<lparr>epochs := 1,
                           cat_names := select_by_tag CATEGORICAL (ds_schema ds),
                           cont_names := select_by_tag CONTINUOUS (ds_schema ds),
                           label_names := select_by_tag TARGET (ds_schema ds)\<rparr>
              in if length (map fst (dtype_reverse_map ld2)) = 0 then
                   Inl (ValueError
                     (''Neither Categorical or Continuous columns were found by the dataloader. ''
                      @ ''You must either specify the cat_names, cont_names and ''
                      @ ''label_names properties or supply a schema.pbtxt file in dataset directory.''))
                 else Inr (ld2\<lparr>num_rows_processed := 0, buff := None,
                              batch_itr := None, workers := None\<rparr>)))"

section \<open>LoaderBase: iteration state\<close>

text \<open>
  \<^verbatim>\<open>LoaderBase._data_iter\<close>:
  \<^verbatim>\<open>
    indices = self._indices_for_process()
    return self.dataset.to_iter(indices=indices, epochs=epochs, columns=...)
  \<close>
\<close>

definition data_iter :: "'a loader \<Rightarrow> nat \<Rightarrow> exn + (exn + 'a list) list" where
  "data_iter ld eps =
     (case indices_for_process (indices ld) (global_size ld) (global_rank ld) of
        Inl e \<Rightarrow> Inl e
      | Inr idxs \<Rightarrow> Inr (to_iter (dataset ld) idxs eps))"

text \<open>
  The property \<^verbatim>\<open>LoaderBase._buff\<close>: the chunk queue, created on first use with
  \<^verbatim>\<open>ChunkQueue(self, 1, num_parts=self.parts_per_chunk, shuffle=self.shuffle,
  epochs=self._epochs)\<close>, whose constructor calls \<^verbatim>\<open>dataloader._data_iter(epochs)\<close> and
  starts with the stop flag cleared and an empty queue.
\<close>

definition get_buff :: "'a loader \<Rightarrow> exn + ('a chunk_queue \<times> 'a loader)" where
  "get_buff ld =
     (case buff ld of
        Some cq \<Rightarrow> Inr (cq, ld)
      | None \<Rightarrow>
          (case data_iter ld (epochs ld) of
             Inl e \<Rightarrow> Inl e
           | Inr it \<Rightarrow>
               (let cq = \<lparr>num_parts = parts_per_chunk ld, shuffle = shuffle_on ld,
                          stop_event = False, q_out = [], itr = it\<rparr>
                in Inr (cq, ld\<lparr>buff := Some cq\<rparr>))))"

text \<open>
  \<^verbatim>\<open>LoaderBase.stop\<close>:
  \<^verbatim>\<open>
    if self._workers is not None:
        if not self._buff.stopped:
            self._buff.stop()
        for t in self._workers:
            t.join()
        # remove joined threads from list
        self._workers = None
        self._buff.q_out.queue.clear()
    self._batch_itr = None
  \<close>
  \<^verbatim>\<open>join\<close> waits for the worker, which sees the stop flag at its next check; whatever it
  still hands over before it ends is removed by the \<^verbatim>\<open>clear\<close> that follows.
\<close>

definition stop :: "'a loader \<Rightarrow> exn + 'a loader" where
  "stop ld =
     (case workers ld of
        None \<Rightarrow> Inr (ld\<lparr>batch_itr := None\<rparr>)
      | Some ts \<Rightarrow>
          (case get_buff ld of
             Inl e \<Rightarrow> Inl e
           | Inr (cq, ld1) \<Rightarrow>
               (let cq1 = (if \<not> stopped cq then cq_stop cq else cq);
                    cq2 = cq1\<lparr>q_out := []\<rparr>
                in Inr (ld1\<lparr>buff := Some cq2, workers := None, batch_itr := None\<rparr>))))"

text \<open>
  \<^verbatim>\<open>LoaderBase.__iter__\<close>; \<open>perm\<close> is the permutation that \<^verbatim>\<open>_shuffle_indices\<close> draws
  (\<^verbatim>\<open>cp.random.shuffle(self.indices)\<close>). The result is the exception raised, if any, and
  the state.
  \<^verbatim>\<open>
    self.stop()
    self.num_rows_processed = 0
    if self._buff.stopped:
        self._buff.start()
    if self.shuffle:
        self._shuffle_indices()
    self._workers = []
    t = threading.Thread(target=self._buff.load_chunks, args=(self.device,))
    t.daemon = True
    t.start()
    self._workers.append(t)
    return self
  \<close>
\<close>

definition iter_loader :: "(nat list \<Rightarrow> nat list) \<Rightarrow> 'a loader \<Rightarrow> exn option \<times> 'a loader" where
  "iter_loader perm ld =
     (case stop ld of
        Inl e \<Rightarrow> (Some e, ld)
      | Inr ld1 \<Rightarrow>
          (let ld2 = ld1\<lparr>num_rows_processed := 0\<rparr>
           in case get_buff ld2 of
                Inl e \<Rightarrow> (Some e, ld2)
              | Inr (cq, ld3) \<Rightarrow>
                  (let cq1 = (if stopped cq then cq_start cq else cq);
                       ld4 = ld3\<lparr>buff := Some cq1\<rparr>;
                       ld5 = (if shuffle_on ld4 then ld4\<lparr>indices := perm (indices ld4)\<rparr>
                              else ld4)
                   in (None, ld5\<lparr>workers := Some [True]\<rparr>))))"

text \<open>
  \<^verbatim>\<open>LoaderBase._fetch_chunk\<close>:
  \<^verbatim>\<open>
    chunks = self._buff.get()
    if isinstance(chunks, Exception):
        self.stop()
        raise chunks
    self._batch_itr = iter(chunks)
  \<close>
  The call ends normally, raises, or waits for a packet.
\<close>

datatype 'a fetched = Waiting | Fetched "'a loader" | Raising exn "'a loader"

definition fetch_chunk :: "'a loader \<Rightarrow> 'a fetched" where
  "fetch_chunk ld =
     (case get_buff ld of
        Inl e \<Rightarrow> Raising e ld
      | Inr (cq, ld1) \<Rightarrow>
          (case get cq of
             None \<Rightarrow> Waiting
           | Some (chunks, cq') \<Rightarrow>
               (let ld2 = ld1\<lparr>buff := Some cq'\<rparr>
                in case chunks of
                     Failure e \<Rightarrow>
                       (case stop ld2 of
                          Inl e' \<Rightarrow> Raising e' ld2
                        | Inr ld3 \<Rightarrow> Raising e ld3)
                   | Batches bs \<Rightarrow> Fetched (ld2\<lparr>batch_itr := Some bs\<rparr>))))"

section \<open>Tensors of a batch and sparse materialization\<close>

text \<open>
  Modelled from the spec: the fixed-length representation that \<^verbatim>\<open>_build_sparse_tensor\<close> of
  the framework-specific subclass returns (the subclass is not part of the sources). The
  spec describes a \<open>[num_rows, max_len]\<close> container with an index built from the offsets
  or the per-row counts; the model keeps what the container is built from.
\<close>

record 'v sparse_tensor =
  sp_vals :: "'v list"
  sp_offsets :: "int list"
  sp_row_lengths :: "int list"
  sp_num_rows :: nat
  sp_seq_limit :: int
  sp_dense :: bool

text \<open>
  What a column name maps to in the dictionary \<^verbatim>\<open>X\<close> of a batch: nothing (\<^verbatim>\<open>None\<close>), a dense
  tensor (the list of its columns), the pair \<^verbatim>\<open>(values, index)\<close> of a list column, or the
  sparse representation.
\<close>

datatype 'v tensor =
    Absent
  | Dense "'v list list"
  | ListPair "'v list" "int list"
  | Sparse "'v sparse_tensor"

text \<open>\<^verbatim>\<open>offsets[1:] - offsets[:-1]\<close>.\<close>

definition diffs :: "int list \<Rightarrow> int list" where
  "diffs offs = map (\<lambda>(a, b). b - a) (zip offs (tl offs))"

text \<open>
  Modelled from the spec: the lengths of the rows of a list column in a batch, by the
  invariant ``\<^verbatim>\<open>offsets[i+1] - offsets[i]\<close> is the row-length of list-column entry
  \<^verbatim>\<open>i\<close>''. The index of the pair, which \<^verbatim>\<open>make_tensors\<close> builds as \<^verbatim>\<open>off0 - start\<close>, holds
  the start of every row within \<open>vals\<close>; the last row ends where \<open>vals\<close> ends.
\<close>

definition row_lengths :: "'v list \<Rightarrow> int list \<Rightarrow> int list" where
  "row_lengths vals offs = diffs (offs @ [int (length vals)])"

text \<open>
  Modelled from the spec: \<^verbatim>\<open>_pull_values_offsets\<close> and \<^verbatim>\<open>_get_max_seq_len\<close> are methods of the
  framework-specific subclass, which is not part of the sources. The spec: sparse
  materialization ``computes per-row length from offsets'' and ``computes
  \<^verbatim>\<open>observed_max = max(lengths)\<close>''; the docstring of \<^verbatim>\<open>_to_sparse_tensor\<close>: ``values_offset is
  either a tensor or a tuple of tensor, offset''. A tensor alone has one value per row.
  The maximum of no rows is an error, as \<^verbatim>\<open>max\<close> of an empty sequence is.
\<close>

definition pull_values_offsets ::
  "'v tensor \<Rightarrow> exn + ('v list \<times> int list \<times> int list \<times> nat)" where
  "pull_values_offsets values_offset =
     (case values_offset of
        ListPair vals offs \<Rightarrow> Inr (vals, offs, row_lengths vals offs, length offs)
      | Dense cols \<Rightarrow>
          (let vals = concat cols; offs = map int [0..<length vals]
           in Inr (vals, offs, row_lengths vals offs, length offs))
      | Absent \<Rightarrow> Inl (SourceError ''pull_values_offsets'')
      | Sparse t \<Rightarrow> Inl (SourceError ''pull_values_offsets''))"

text \<open>
  Modelled from the spec: \<^verbatim>\<open>_get_max_seq_len\<close>, the \<^verbatim>\<open>observed_max = max(lengths)\<close> of the
  spec, over the row lengths that \<^verbatim>\<open>_pull_values_offsets\<close> returns.
\<close>

definition get_max_seq_len :: "int list \<Rightarrow> exn + int" where
  "get_max_seq_len diff_offsets =
     (if diff_offsets = [] then Inl (SourceError ''max of an empty tensor'')
      else Inr (Max (set diff_offsets)))"

text \<open>
  Modelled from the spec: \<^verbatim>\<open>_build_sparse_tensor\<close>, which builds the
  \<open>[num_rows, max_len]\<close> container of the spec from the values, the offsets and the row
  lengths, in the dense or the indexed form.
\<close>

definition build_sparse_tensor ::
  "'v list \<Rightarrow> int list \<Rightarrow> int list \<Rightarrow> nat \<Rightarrow> int \<Rightarrow> bool \<Rightarrow> 'v sparse_tensor" where
  "build_sparse_tensor vals offs diff_offsets n_rows seq_limit as_dense =
     \<lparr>sp_vals = vals, sp_offsets = offs, sp_row_lengths = diff_offsets,
      sp_num_rows = n_rows, sp_seq_limit = seq_limit, sp_dense = as_dense\<rparr>"

text \<open>The decimal form of an integer, as an f-string prints it.\<close>

function str_nat :: "nat \<Rightarrow> string" where
  "str_nat n =
     (if n < 10 then [char_of (48 + n)]
      else str_nat (n div 10) @ [char_of (48 + n mod 10)])"
  by pat_completeness auto
termination
  by (relation "measure id") auto

declare str_nat.simps [simp del]

definition str_int :: "int \<Rightarrow> string" where
  "str_int i = (if i < 0 then CHR ''-'' # str_nat (nat (- i)) else str_nat (nat i))"

text \<open>
  The message of the \<^verbatim>\<open>ValueError\<close> of \<^verbatim>\<open>_to_sparse_tensor\<close>:
  \<^verbatim>\<open>
    "The default sequence length has been configured "
    + f"to {seq_limit} but the "
    + f"largest sequence in this batch have {max_seq_len} length"
  \<close>
\<close>

definition seq_len_message :: "int \<Rightarrow> int \<Rightarrow> string" where
  "seq_len_message seq_limit max_seq_len =
     ''The default sequence length has been configured ''
     @ ''to '' @ str_int seq_limit @ '' but the ''
     @ ''largest sequence in this batch have '' @ str_int max_seq_len @ '' length''"

text \<open>
  \<^verbatim>\<open>LoaderBase._to_sparse_tensor\<close>:
  \<^verbatim>\<open>
    seq_limit = self.sparse_max[column_name]
    values, offsets, diff_offsets, num_rows = self._pull_values_offsets(values_offset)
    max_seq_len = self._get_max_seq_len(diff_offsets)
    if max_seq_len > seq_limit:
        raise ValueError(...)
    sparse_as_dense = column_name in self.sparse_as_dense
    return self._build_sparse_tensor(
        values, offsets, diff_offsets, num_rows, seq_limit, sparse_as_dense)
  \<close>
\<close>

definition to_sparse_tensor :: "'a loader \<Rightarrow> 'v tensor \<Rightarrow> string \<Rightarrow> exn + 'v sparse_tensor" where
  "to_sparse_tensor ld values_offset column_name =
     (case sparse_max ld column_name of
        None \<Rightarrow> Inl (KeyError column_name)
      | Some seq_limit \<Rightarrow>
          (case pull_values_offsets values_offset of
             Inl e \<Rightarrow> Inl e
           | Inr (vals, offs, diff_offsets, n_rows) \<Rightarrow>
               (case get_max_seq_len diff_offsets of
                  Inl e \<Rightarrow> Inl e
                | Inr max_seq_len \<Rightarrow>
                    if max_seq_len > seq_limit then
                      Inl (ValueError (seq_len_message seq_limit max_seq_len))
                    else
                      Inr (build_sparse_tensor vals offs diff_offsets n_rows seq_limit
                             (column_name \<in> sparse_as_dense ld)))))"

section \<open>LoaderBase: the dictionary of a batch\<close>

text \<open>
  One entry of \<^verbatim>\<open>tensors\<close>, the argument of \<^verbatim>\<open>_handle_tensors\<close>: the tensor of the scalar
  columns of a dtype group, alone or in a tuple with the dictionary of its list columns.
\<close>

datatype 'v group = Plain "'v tensor" | WithLists "'v tensor" "(string \<times> 'v tensor) list"

text \<open>
  Modelled from the spec: \<^verbatim>\<open>_tensor_split\<close> is a method of the framework-specific subclass,
  which is not part of the sources; it is the tensor runtime's \<^verbatim>\<open>split\<close> along the column
  axis into the given number of pieces, one column each.
\<close>

definition tensor_split :: "'v tensor \<Rightarrow> nat \<Rightarrow> exn + 'v tensor list" where
  "tensor_split t n =
     (case t of
        Dense cols \<Rightarrow>
          if length cols = n then Inr (map (\<lambda>col. Dense [col]) cols)
          else Inl (SourceError ''split'')
      | Absent \<Rightarrow> Inl (SourceError ''split'')
      | ListPair vals offs \<Rightarrow> Inl (SourceError ''split'')
      | Sparse sp \<Rightarrow> Inl (SourceError ''split''))"

text \<open>\<^verbatim>\<open>d.update(pairs)\<close> on a dictionary.\<close>

definition dict_update :: "('k \<rightharpoonup> 'w) \<Rightarrow> ('k \<times> 'w) list \<Rightarrow> ('k \<rightharpoonup> 'w)" where
  "dict_update d pairs = fold (\<lambda>(k, w) m. m(k \<mapsto> w)) pairs d"

text \<open>
  The first loop of \<^verbatim>\<open>LoaderBase._handle_tensors\<close>:
  \<^verbatim>\<open>
    X = {}
    for idx, (tensor, names) in enumerate(zip(tensors, tensor_names)):
        lists = {}
        if isinstance(tensor, tuple):
            tensor, lists = tensor
        names = [i for i in names if i not in lists]
        # now add in any scalar tensors
        if len(names) > 1:
            tensors = self._tensor_split(tensor, len(names), axis=1)
            # pull out label tensor from here
            lists.update(zip(names, tensors))
        elif len(names) == 1:
            lists[names[0]] = tensor
        X.update(lists)
  \<close>
\<close>

fun collect_columns ::
  "('v group \<times> string list) list \<Rightarrow> (string \<rightharpoonup> 'v tensor) \<Rightarrow> exn + (string \<rightharpoonup> 'v tensor)" where
  "collect_columns [] X = Inr X"
| "collect_columns ((g, names) # rest) X =
     (let tensor = (case g of Plain t \<Rightarrow> t | WithLists t ls \<Rightarrow> t);
          lists = (case g of Plain t \<Rightarrow> [] | WithLists t ls \<Rightarrow> ls);
          names' = filter (\<lambda>i. i \<notin> fst ` set lists) names
      in if length names' > 1 then
           (case tensor_split tensor (length names') of
              Inl e \<Rightarrow> Inl e
            | Inr pieces \<Rightarrow>
                collect_columns rest (dict_update X (lists @ zip names' pieces)))
         else if length names' = 1 then
           collect_columns rest (dict_update X (lists @ [(names' ! 0, tensor)]))
         else collect_columns rest (dict_update X lists))"

text \<open>
  The second loop of \<^verbatim>\<open>LoaderBase._handle_tensors\<close>, over \<^verbatim>\<open>self.sparse_names\<close>:
  \<^verbatim>\<open>
    for column_name in self.sparse_names:
        if column_name in self.sparse_max:
            X[column_name] = self._to_sparse_tensor(X[column_name], column_name)
  \<close>
\<close>

fun sparse_pass ::
  "'a loader \<Rightarrow> string list \<Rightarrow> (string \<rightharpoonup> 'v tensor) \<Rightarrow> exn + (string \<rightharpoonup> 'v tensor)" where
  "sparse_pass ld [] X = Inr X"
| "sparse_pass ld (column_name # rest) X =
     (if column_name \<in> dom (sparse_max ld) then
        (case X column_name of
           None \<Rightarrow> Inl (KeyError column_name)
         | Some values_offset \<Rightarrow>
             (case to_sparse_tensor ld values_offset column_name of
                Inl e \<Rightarrow> Inl e
              | Inr t \<Rightarrow> sparse_pass ld rest (X(column_name \<mapsto> Sparse t))))
      else sparse_pass ld rest X)"

text \<open>
  \<^verbatim>\<open>LoaderBase._handle_tensors\<close> (without transforms): the two loops, then the label:
  \<^verbatim>\<open>
    labels = None
    if len(self.label_names) > 0:
        labels = X.pop(self.label_names[0])
    ...
    return X, labels
  \<close>
\<close>

definition handle_tensors ::
  "'a loader \<Rightarrow> 'v group list \<Rightarrow> string list list \<Rightarrow>
   exn + ((string \<rightharpoonup> 'v tensor) \<times> 'v tensor option)" where
  "handle_tensors ld tensors tensor_names =
     (case collect_columns (zip tensors tensor_names) Map.empty of
        Inl e \<Rightarrow> Inl e
      | Inr X \<Rightarrow>
          (case sparse_pass ld (sparse_names ld) X of
             Inl e \<Rightarrow> Inl e
           | Inr X' \<Rightarrow>
               (if length (label_names ld) > 0 then
                  (case X' (label_names ld ! 0) of
                     None \<Rightarrow> Inl (KeyError (label_names ld ! 0))
                   | Some labels \<Rightarrow> Inr (X'(label_names ld ! 0 := None), Some labels))
                else Inr (X', None))))"

text \<open>
  The columns that \<^verbatim>\<open>_handle_tensors\<close> hands to \<^verbatim>\<open>_to_sparse_tensor\<close>: the names of
  \<^verbatim>\<open>self.sparse_names\<close> that are keys of \<^verbatim>\<open>self.sparse_max\<close>.
\<close>

definition sparse_columns :: "'a loader \<Rightarrow> string set" where
  "sparse_columns ld = {c \<in> set (sparse_names ld). c \<in> dom (sparse_max ld)}"

section \<open>Arithmetic of ceilings and truncation\<close>

lemma num_steps_div:
  "step_size \<noteq> 0 \<Longrightarrow> num_steps n step_size = Inr (- ((- n) div step_size))"
  by (simp add: num_steps_def ceiling_divide_eq_div)

lemma ceil_div_bounds:
  fixes n b :: int
  assumes "1 \<le> b"
  shows "n \<le> (- ((- n) div b)) * b" and "(- ((- n) div b)) * b < n + b"
proof -
  have m0: "0 \<le> (- n) mod b" and m1: "(- n) mod b < b" using assms by simp_all
  have "b * ((- n) div b) + (- n) mod b = - n" by (rule mult_div_mod_eq)
  moreover have "(- ((- n) div b)) * b = - (b * ((- n) div b))" by simp
  ultimately have "(- ((- n) div b)) * b = n + (- n) mod b"
    by linarith
  then show "n \<le> (- ((- n) div b)) * b" and "(- ((- n) div b)) * b < n + b"
    using m0 m1 by simp_all
qed

lemma ceil_div_pos:
  fixes n b :: int
  assumes "1 \<le> b" "1 \<le> n"
  shows "1 \<le> - ((- n) div b)"
proof -
  have "(- n) div b < 0" using assms by (simp add: div_neg_pos_less0)
  then show ?thesis by simp
qed

lemma py_int_div:
  assumes "1 \<le> b"
  shows "py_int (real n / real_of_int b) = int n div b"
proof -
  have "0 \<le> real n / real_of_int b" using assms by simp
  moreover have "\<lfloor>real n / real_of_int b\<rfloor> = int n div b"
    using floor_divide_of_int_eq [of "int n" b, where ?'a = real] by simp
  ultimately show ?thesis by (simp add: py_int_def)
qed


subsection \<open>Segment lengths and the number of batches\<close>

text \<open>
  Claim C4. For \<open>n \<ge> 1\<close> samples and a batch size \<open>b \<ge> 1\<close>, \<^verbatim>\<open>_get_segment_lengths\<close>
  returns a list of \<open>ceil(n / b)\<close> entries, all equal to \<open>b\<close> except the last, which is
  \<open>n - (ceil(n / b) - 1) * b\<close>; the entries sum to \<open>n\<close>.
\<close>

theorem get_segment_lengths_spec:
  assumes "1 \<le> n" and "1 \<le> b"
  shows "\<exists>idx. get_segment_lengths b n = Inr idx
     \<and> int (length idx) = \<lceil>real_of_int n / real_of_int b\<rceil>
     \<and> butlast idx = replicate (length idx - 1) b
     \<and> last idx = n - (\<lceil>real_of_int n / real_of_int b\<rceil> - 1) * b
     \<and> sum_list idx = n"
proof -
  define k where "k = - ((- n) div b)"
  have ceil: "\<lceil>real_of_int n / real_of_int b\<rceil> = k"
    by (simp add: k_def ceiling_divide_eq_div)
  have k1: "1 \<le> k" unfolding k_def using assms(2,1) by (rule ceil_div_pos)
  have steps: "num_steps n b = Inr k"
    using assms(2) by (simp add: num_steps_div k_def)
  define idx where "idx = replicate (nat (k - 1)) b @ [n - (k - 1) * b]"
  have run: "get_segment_lengths b n = Inr idx"
    by (simp add: get_segment_lengths_def steps idx_def Let_def)
  have len: "int (length idx) = k" using k1 by (simp add: idx_def)
  have bl: "butlast idx = replicate (length idx - 1) b" by (simp add: idx_def)
  have la: "last idx = n - (k - 1) * b" by (simp add: idx_def)
  have su: "sum_list idx = n" using k1 by (simp add: idx_def sum_list_replicate)
  show ?thesis using run len bl la su ceil by simp
qed

theorem get_segment_lengths_spec_witness:
  "get_segment_lengths 4 10 = Inr [4, 4, 2]
   \<and> (\<exists>idx. get_segment_lengths 4 10 = Inr idx \<and> int (length idx) = 3
          \<and> last idx = 2 \<and> sum_list idx = 10)"
proof -
  have h1: "(1::int) \<le> 10" and h2: "(1::int) \<le> 4" by simp_all
  have c: "\<lceil>real_of_int 10 / real_of_int 4\<rceil> = 3" by (simp add: ceiling_divide_eq_div)
  have "get_segment_lengths 4 10 = Inr [4, 4, 2]"
    by (simp add: get_segment_lengths_def num_steps_div Let_def eval_nat_numeral)
  moreover have "\<exists>idx. get_segment_lengths 4 10 = Inr idx \<and> int (length idx) = 3
          \<and> last idx = 2 \<and> sum_list idx = 10"
    using get_segment_lengths_spec [OF h1 h2] unfolding c by auto
  ultimately show ?thesis by simp
qed

text \<open>
  Claim C8. For a batch size \<open>b \<ge> 1\<close>, \<^verbatim>\<open>len(loader)\<close> is \<open>ceil(N / b)\<close>, where \<open>N\<close> is
  the row count of this shard and epoch setting, minus one exactly when \<^verbatim>\<open>drop_last\<close>
  is set and \<open>N mod b\<close> is not zero.
\<close>

theorem loader_len_spec:
  assumes "1 \<le> b"
  shows "loader_len N b dl =
    Inr (\<lceil>real_of_int N / real_of_int b\<rceil> - (if dl \<and> N mod b \<noteq> 0 then 1 else 0))"
proof -
  have "0 \<le> N mod b" using assms by simp
  then have "(N mod b > 0) = (N mod b \<noteq> 0)" by linarith
  then show ?thesis using assms by (simp add: loader_len_def num_steps_def)
qed

theorem loader_len_spec_witness:
  "loader_len 1000 64 False = Inr 16 \<and> loader_len 1000 64 True = Inr 15
   \<and> loader_len 128 64 True = Inr 2"
proof -
  have h: "(1::int) \<le> 64" by simp
  have c1: "\<lceil>real_of_int 1000 / real_of_int 64\<rceil> = 16"
    and c2: "\<lceil>real_of_int 128 / real_of_int 64\<rceil> = 2"
    by (simp_all add: ceiling_divide_eq_div)
  show ?thesis
    using loader_len_spec [OF h, of 1000 False] loader_len_spec [OF h, of 1000 True]
      loader_len_spec [OF h, of 128 True]
    unfolding c1 c2 by simp
qed

subsection \<open>Splitting a chunk at a batch boundary\<close>

text \<open>
  Claim C3. For a table of \<open>n\<close> rows and a batch size \<open>b \<ge> 1\<close>, \<^verbatim>\<open>get_batch_div_chunk\<close>
  returns the pair of the first \<open>floor(n / b) * b\<close> rows and of the remaining \<open>n mod b\<close>
  rows, both in their original order; the two parts concatenated are the table.
\<close>

theorem get_batch_div_chunk_spec:
  assumes "1 \<le> b"
  shows "\<exists>head tail. get_batch_div_chunk xs b = Inr (head, tail)
     \<and> head = take (nat (\<lfloor>real (length xs) / real_of_int b\<rfloor> * b)) xs
     \<and> tail = drop (nat (\<lfloor>real (length xs) / real_of_int b\<rfloor> * b)) xs
     \<and> int (length head) = \<lfloor>real (length xs) / real_of_int b\<rfloor> * b
     \<and> int (length tail) = int (length xs) mod b
     \<and> head @ tail = xs"
proof -
  define n where "n = int (length xs)"
  define k where "k = n div b * b"
  have dm: "n div b * b + n mod b = n" by (rule div_mult_mod_eq)
  have m0: "0 \<le> n mod b" using assms by simp
  have n0: "0 \<le> n" by (simp add: n_def)
  have d0: "0 \<le> n div b" using assms n0 by (simp add: pos_imp_zdiv_nonneg_iff)
  have k0: "0 \<le> k" using assms d0 by (simp add: k_def)
  have kn: "k \<le> n" unfolding k_def using dm m0 by linarith
  have pi: "py_int (real (length xs) / real_of_int b) = n div b"
    using assms by (simp add: py_int_div n_def)
  have nk: "nat k \<le> length xs" using kn by (simp add: n_def nat_le_iff)
  have cl: "py_clamp (length xs) k = nat k"
    using k0 nk by (simp add: py_clamp_def min_def)
  have run: "get_batch_div_chunk xs b = Inr (take (nat k) xs, drop (nat k) xs)"
    using assms
    by (simp add: get_batch_div_chunk_def pi slice_from_def slice_to_def cl k_def [symmetric] Let_def)
  have fl: "\<lfloor>real (length xs) / real_of_int b\<rfloor> = n div b"
    using floor_divide_of_int_eq [of n b, where ?'a = real] by (simp add: n_def)
  have lh: "int (length (take (nat k) xs)) = k"
    using k0 nk by (simp add: min_def)
  have lt: "int (length (drop (nat k) xs)) = n mod b"
  proof -
    have "int (length (drop (nat k) xs)) = n - k" using k0 nk by (simp add: n_def of_nat_diff)
    then show ?thesis unfolding k_def using dm by linarith
  qed
  show ?thesis unfolding fl k_def [symmetric] using run lh lt by (simp add: n_def)
qed

theorem get_batch_div_chunk_spec_witness:
  "get_batch_div_chunk [10, 11, 12, 13, 14, 15, 16 :: nat] 3 = Inr ([10, 11, 12, 13, 14, 15], [16])"
proof -
  have h: "(1::int) \<le> 3" by simp
  have c: "\<lfloor>real (length [10, 11, 12, 13, 14, 15, 16 :: nat]) / real_of_int 3\<rfloor> = 2"
    by (simp add: floor_divide_of_int_eq [symmetric] del: floor_divide_of_int_eq)
  show ?thesis
    using get_batch_div_chunk_spec [OF h, of "[10, 11, 12, 13, 14, 15, 16 :: nat]"]
    unfolding c by auto
qed

subsection \<open>Sharding of the partition indices\<close>

lemma slice_upt:
  assumes "0 \<le> a" and "a \<le> b"
  shows "slice [0..<P] a b = [min (nat a) P ..< min (nat b) P]"
proof -
  have ca: "py_clamp P a = min (nat a) P" using assms by (simp add: py_clamp_def)
  have cb: "py_clamp P b = min (nat b) P" using assms by (simp add: py_clamp_def)
  have "nat a \<le> nat b" using assms by simp
  then have le: "min (nat a) P \<le> min (nat b) P" by (rule min.mono) simp
  have "take (min (nat b) P - min (nat a) P) [min (nat a) P ..< P] = [min (nat a) P ..< min (nat b) P]"
    using le by (simp add: take_upt)
  then show ?thesis by (simp add: slice_def ca cb Let_def)
qed

lemma indices_for_process_block:
  assumes "1 \<le> S" and "S \<le> int P" and "0 \<le> r"
  shows "indices_for_process (arange P) S r =
     Inr [min (nat (r * (- ((- int P) div S)))) P ..< min (nat (r * (- ((- int P) div S)) + (- ((- int P) div S)))) P]"
proof -
  define per where "per = - ((- int P) div S)"
  have P1: "1 \<le> int P" using assms by linarith
  have per1: "1 \<le> per" unfolding per_def using assms(1) P1 by (rule ceil_div_pos)
  have st: "0 \<le> r * per" using assms(3) per1 by simp
  have steps: "num_steps (int P) S = Inr per"
    using assms(1) by (simp add: num_steps_div per_def)
  have "indices_for_process (arange P) S r = Inr (slice [0..<P] (r * per) (r * per + per))"
    using assms(2) by (simp add: indices_for_process_def arange_def steps Let_def)
  also have "slice [0..<P] (r * per) (r * per + per) = [min (nat (r * per)) P ..< min (nat (r * per + per)) P]"
    using st per1 by (intro slice_upt) simp_all
  finally show ?thesis by (simp add: per_def)
qed

lemma shard_block_iff:
  assumes "1 \<le> S" and "S \<le> int P" and "0 \<le> r"
  shows "(i \<in> shard_block P S r) =
     (r * (- ((- int P) div S)) \<le> int i \<and> int i < r * (- ((- int P) div S)) + (- ((- int P) div S)) \<and> i < P)"
proof -
  define per where "per = - ((- int P) div S)"
  have P1: "1 \<le> int P" using assms by linarith
  have per1: "1 \<le> per" unfolding per_def using assms(1) P1 by (rule ceil_div_pos)
  have st: "0 \<le> r * per" using assms(3) per1 by simp
  have "shard_block P S r = set [min (nat (r * per)) P ..< min (nat (r * per + per)) P]"
    using indices_for_process_block [OF assms] by (simp add: shard_block_def per_def)
  then have "(i \<in> shard_block P S r) = (min (nat (r * per)) P \<le> i \<and> i < min (nat (r * per + per)) P)"
    by simp
  also have "\<dots> = (r * per \<le> int i \<and> int i < r * per + per \<and> i < P)"
    using st per1 by (auto simp: min_def nat_le_iff)
  finally show ?thesis by (simp add: per_def)
qed

lemma shard_blocks_disjoint:
  assumes "1 \<le> S" and "S \<le> int P" and "0 \<le> r1" and "r1 < r2"
  shows "shard_block P S r1 \<inter> shard_block P S r2 = {}"
proof -
  define per where "per = - ((- int P) div S)"
  have P1: "1 \<le> int P" using assms by linarith
  have per1: "1 \<le> per" unfolding per_def using assms(1) P1 by (rule ceil_div_pos)
  have r2: "0 \<le> r2" using assms by linarith
  have "(r1 + 1) * per \<le> r2 * per" using assms(4) per1 by (intro mult_right_mono) simp_all
  then have sep: "r1 * per + per \<le> r2 * per" by (simp add: algebra_simps)
  show ?thesis
  proof (rule equals0I)
    fix i assume "i \<in> shard_block P S r1 \<inter> shard_block P S r2"
    then have a: "int i < r1 * per + per" and b: "r2 * per \<le> int i"
      using shard_block_iff [OF assms(1,2,3)] shard_block_iff [OF assms(1,2) r2]
      by (simp_all add: per_def)
    from a b sep show False by linarith
  qed
qed

lemma shard_blocks_cover:
  assumes "1 \<le> S" and "S \<le> int P"
  shows "(\<Union>r \<in> {0..<S}. shard_block P S r) = {0..<P}"
proof -
  define per where "per = - ((- int P) div S)"
  have P1: "1 \<le> int P" using assms by linarith
  have per1: "1 \<le> per" unfolding per_def using assms(1) P1 by (rule ceil_div_pos)
  have cov: "int P \<le> per * S" unfolding per_def using ceil_div_bounds(1) [OF assms(1)] .
  show ?thesis
  proof (intro set_eqI iffI)
    fix i assume "i \<in> (\<Union>r \<in> {0..<S}. shard_block P S r)"
    then obtain r where r: "0 \<le> r" and "i \<in> shard_block P S r" by auto
    then show "i \<in> {0..<P}" using shard_block_iff [OF assms r] by simp
  next
    fix i assume "i \<in> {0..<P}"
    then have iP: "i < P" by simp
    define r where "r = int i div per"
    have r0: "0 \<le> r" using per1 by (simp add: r_def pos_imp_zdiv_nonneg_iff)
    have dm: "r * per + int i mod per = int i" unfolding r_def by (rule div_mult_mod_eq)
    have m0: "0 \<le> int i mod per" and m1: "int i mod per < per" using per1 by simp_all
    have lo: "r * per \<le> int i" and hi: "int i < r * per + per" using dm m0 m1 by linarith+
    have rS: "r < S"
    proof (rule ccontr)
      assume "\<not> r < S"
      then have "S \<le> r" by simp
      then have "S * per \<le> r * per" using per1 by (intro mult_right_mono) simp_all
      then show False using cov lo iP by (simp add: mult.commute)
    qed
    have "i \<in> shard_block P S r"
      using shard_block_iff [OF assms r0] lo hi iP by (simp add: per_def)
    then show "i \<in> (\<Union>r \<in> {0..<S}. shard_block P S r)" using r0 rS by auto
  qed
qed

text \<open>
  Claim C5. With the index array \<open>arange P\<close> of the constructor, \<open>1 \<le> S \<le> P\<close> shards
  and a rank \<open>0 \<le> r < S\<close>, \<^verbatim>\<open>_indices_for_process\<close> returns the contiguous block
  \<open>[r * ceil(P/S), r * ceil(P/S) + ceil(P/S))\<close> clipped to \<open>[0, P)\<close>; the blocks of two
  different ranks are disjoint, the blocks of all ranks together are \<open>[0, P)\<close>; and with
  more shards than partitions the call raises \<^verbatim>\<open>IndexError\<close>.
\<close>

theorem indices_for_process_spec:
  "(1 \<le> S \<and> S \<le> int P \<longrightarrow>
      (\<forall>r. 0 \<le> r \<and> r < S \<longrightarrow>
         indices_for_process (arange P) S r =
           Inr [min (nat (r * \<lceil>real P / real_of_int S\<rceil>)) P ..<
                min (nat (r * \<lceil>real P / real_of_int S\<rceil> + \<lceil>real P / real_of_int S\<rceil>)) P]) \<and>
      (\<forall>r1 r2. 0 \<le> r1 \<and> r1 < S \<and> 0 \<le> r2 \<and> r2 < S \<and> r1 \<noteq> r2 \<longrightarrow>
         shard_block P S r1 \<inter> shard_block P S r2 = {}) \<and>
      (\<Union>r \<in> {0..<S}. shard_block P S r) = {0..<P}) \<and>
   (int P < S \<longrightarrow> indices_for_process (arange P) S r = Inl IndexError)"
proof (intro conjI impI allI)
  fix r' assume h: "1 \<le> S \<and> S \<le> int P" and r: "0 \<le> r' \<and> r' < S"
  have ceil: "\<lceil>real P / real_of_int S\<rceil> = - ((- int P) div S)"
    using ceiling_divide_eq_div [of "int P" S, where ?'a = real] by simp
  show "indices_for_process (arange P) S r' =
           Inr [min (nat (r' * \<lceil>real P / real_of_int S\<rceil>)) P ..<
                min (nat (r' * \<lceil>real P / real_of_int S\<rceil> + \<lceil>real P / real_of_int S\<rceil>)) P]"
    unfolding ceil using h r by (intro indices_for_process_block) simp_all
next
  fix r1 r2
  assume h: "1 \<le> S \<and> S \<le> int P"
    and r: "0 \<le> r1 \<and> r1 < S \<and> 0 \<le> r2 \<and> r2 < S \<and> r1 \<noteq> r2"
  from r consider "r1 < r2" | "r2 < r1" by linarith
  then show "shard_block P S r1 \<inter> shard_block P S r2 = {}"
  proof cases
    case 1
    then show ?thesis using h r by (intro shard_blocks_disjoint) simp_all
  next
    case 2
    then have "shard_block P S r2 \<inter> shard_block P S r1 = {}"
      using h r by (intro shard_blocks_disjoint) simp_all
    then show ?thesis by (simp add: Int_commute)
  qed
next
  assume h: "1 \<le> S \<and> S \<le> int P"
  then show "(\<Union>r \<in> {0..<S}. shard_block P S r) = {0..<P}"
    by (intro shard_blocks_cover) simp_all
next
  assume "int P < S"
  then show "indices_for_process (arange P) S r = Inl IndexError"
    by (simp add: indices_for_process_def arange_def)
qed

theorem indices_for_process_spec_witness:
  "indices_for_process (arange 5) 2 1 = Inr [3, 4]
   \<and> shard_block 5 2 0 \<inter> shard_block 5 2 1 = {}
   \<and> (\<Union>r \<in> {0..<2::int}. shard_block 5 2 r) = {0..<5}
   \<and> indices_for_process (arange 1) 2 0 = Inl IndexError"
proof -
  have h: "1 \<le> (2::int) \<and> 2 \<le> int 5" by simp
  note t = indices_for_process_spec [of 2 5 0, THEN conjunct1, THEN mp, OF h]
  have c: "\<lceil>real 5 / real_of_int 2\<rceil> = 3" by (simp add: ceiling_divide_eq_div)
  have "indices_for_process (arange 5) 2 1 = Inr [min (nat (1 * 3)) 5 ..< min (nat (1 * 3 + 3)) 5]"
    using t [THEN conjunct1, THEN spec, of 1] c by simp
  also have "[min (nat (1 * 3)) 5 ..< min (nat (1 * 3 + 3)) 5] = [3, 4::nat]"
    by (simp add: upt_rec)
  finally have a: "indices_for_process (arange 5) 2 1 = Inr [3, 4]" .
  have b: "shard_block 5 2 0 \<inter> shard_block 5 2 1 = {}"
    using t [THEN conjunct2, THEN conjunct1, THEN spec, THEN spec, of 0 1] by simp
  have u: "(\<Union>r \<in> {0..<2::int}. shard_block 5 2 r) = {0..<5}"
    using t [THEN conjunct2, THEN conjunct2] .
  have e: "indices_for_process (arange 1) 2 0 = Inl IndexError"
    using indices_for_process_spec [of 2 1 0, THEN conjunct2] by simp
  show ?thesis using a b u e by simp
qed

subsection \<open>Row accounting of one epoch\<close>

lemma batch_groups:
  "\<exists>gs. batch np (map Inr parts) cur = map Inr gs \<and> concat (concat gs) = concat (cur @ parts)"
proof (induction parts arbitrary: cur)
  case Nil
  show ?case
  proof (cases "cur = []")
    case True
    then show ?thesis by simp
  next
    case False
    then have "batch np (map Inr []) cur = map Inr [cur]" by simp
    then show ?thesis by (intro exI [of _ "[cur]"]) simp
  qed
next
  case (Cons v parts)
  show ?case
  proof (cases "int (length (cur @ [v])) = np")
    case True
    from Cons.IH [of "[]"] obtain gs where
      gs: "batch np (map Inr parts) [] = map Inr gs" "concat (concat gs) = concat parts"
      by auto
    have "batch np (map Inr (v # parts)) cur = map Inr ((cur @ [v]) # gs)"
      using True gs(1) by (simp add: Let_def)
    moreover have "concat (concat ((cur @ [v]) # gs)) = concat (cur @ v # parts)"
      using gs(2) by simp
    ultimately show ?thesis by blast
  next
    case False
    from Cons.IH [of "cur @ [v]"] obtain gs where
      gs: "batch np (map Inr parts) (cur @ [v]) = map Inr gs"
        "concat (concat gs) = concat ((cur @ [v]) @ parts)"
      by auto
    have "batch np (map Inr (v # parts)) cur = map Inr gs"
      using False gs(1) by (simp add: Let_def)
    then show ?thesis using gs(2) by auto
  qed
qed

lemma split_rows_concat:
  "list_all (\<lambda>n. 0 \<le> n) idx \<Longrightarrow> concat (split_rows xs idx) = take (nat (sum_list idx)) xs"
proof (induction idx arbitrary: xs)
  case Nil
  then show ?case by simp
next
  case (Cons n ns)
  then have n0: "0 \<le> n" and all: "list_all (\<lambda>n. 0 \<le> n) ns" by simp_all
  have s0: "0 \<le> sum_list ns" using all by (intro sum_list_nonneg) (simp add: list_all_iff)
  have "concat (split_rows xs (n # ns)) = take (nat n) xs @ take (nat (sum_list ns)) (drop (nat n) xs)"
    using Cons.IH [OF all] by simp
  also have "\<dots> = take (nat n + nat (sum_list ns)) xs" by (simp add: take_add)
  also have "nat n + nat (sum_list ns) = nat (sum_list (n # ns))"
    using n0 s0 by (simp add: nat_add_distrib)
  finally show ?case .
qed

lemma make_tensors_rows:
  assumes "1 \<le> b" and "xs \<noteq> []"
  shows "\<exists>bs. make_tensors b xs = Inr bs \<and> concat bs = xs"
proof -
  define n where "n = int (length xs)"
  have n1: "1 \<le> n" using assms(2) by (cases xs) (simp_all add: n_def)
  define k where "k = - ((- n) div b)"
  have k1: "1 \<le> k" unfolding k_def using assms(1) n1 by (rule ceil_div_pos)
  have up: "k * b < n + b" unfolding k_def using ceil_div_bounds(2) [OF assms(1)] .
  have last0: "0 \<le> n - (k - 1) * b" using up by (simp add: algebra_simps)
  define idx where "idx = replicate (nat (k - 1)) b @ [n - (k - 1) * b]"
  have seg: "get_segment_lengths b n = Inr idx"
    using assms(1) by (simp add: get_segment_lengths_def num_steps_div k_def idx_def Let_def)
  have nonneg: "list_all (\<lambda>n. 0 \<le> n) idx"
    using assms(1) last0 by (simp add: idx_def list_all_iff)
  have total: "sum_list idx = n" using k1 by (simp add: idx_def sum_list_replicate)
  show ?thesis
  proof (cases "length idx > 1")
    case True
    have "make_tensors b xs = Inr (split_rows xs idx)"
      using True seg nonneg total by (simp add: make_tensors_def n_def [symmetric] split_fn_def)
    moreover have "concat (split_rows xs idx) = xs"
      using split_rows_concat [OF nonneg, of xs] total by (simp add: n_def)
    ultimately show ?thesis by blast
  next
    case False
    then have "length idx = 1" by (simp add: idx_def)
    then have "make_tensors b xs = Inr [xs]"
      using seg by (simp add: make_tensors_def n_def [symmetric])
    then show ?thesis by simp
  qed
qed

lemma split_point:
  assumes "1 \<le> b"
  shows "get_batch_div_chunk xs b =
     Inr (take (length xs div nat b * nat b) xs, drop (length xs div nat b * nat b) xs)"
proof -
  define k where "k = length xs div nat b * nat b"
  have bn: "int (nat b) = b" using assms by simp
  have "int k = int (length xs) div int (nat b) * int (nat b)"
    by (simp add: k_def zdiv_int)
  then have ik: "int (length xs) div b * b = int k" by (simp only: bn)
  have kle: "k \<le> length xs" unfolding k_def by (rule div_times_less_eq_dividend)
  have pi: "py_int (real (length xs) / real_of_int b) = int (length xs) div b"
    using assms by (rule py_int_div)
  have cl: "py_clamp (length xs) (int k) = k"
    using kle by (simp add: py_clamp_def)
  have "get_batch_div_chunk xs b = Inr (take k xs, drop k xs)"
    using assms
    by (simp add: get_batch_div_chunk_def pi ik slice_from_def slice_to_def cl Let_def)
  then show ?thesis by (simp only: k_def)
qed

lemma take_app_len: "length A = k1 \<Longrightarrow> take (k1 + k2) (A @ C) = A @ take k2 C"
  by simp

lemma drop_app_len: "length A = k1 \<Longrightarrow> drop (k1 + k2) (A @ C) = drop k2 C"
  by simp

lemma take_drop_carry:
  assumes "k1 \<le> length xs"
  shows "take k1 xs @ take k2 (drop k1 xs @ ys) = take (k1 + k2) (xs @ ys)"
    and "drop k2 (drop k1 xs @ ys) = drop (k1 + k2) (xs @ ys)"
proof -
  have "take k1 xs @ (drop k1 xs @ ys) = (take k1 xs @ drop k1 xs) @ ys"
    by (simp only: append_assoc)
  then have split: "take k1 xs @ (drop k1 xs @ ys) = xs @ ys"
    by (simp only: append_take_drop_id)
  have len: "length (take k1 xs) = k1" using assms by simp
  show "take k1 xs @ take k2 (drop k1 xs @ ys) = take (k1 + k2) (xs @ ys)"
    using take_app_len [OF len, of k2 "drop k1 xs @ ys"] by (simp only: split)
  show "drop k2 (drop k1 xs @ ys) = drop (k1 + k2) (xs @ ys)"
    using drop_app_len [OF len, of k2 "drop k1 xs @ ys"] by (simp only: split)
qed

lemma aligned_carry:
  fixes b :: nat
  assumes "0 < b"
  shows "n div b * b + (n - n div b * b + m) div b * b = (n + m) div b * b"
proof -
  have r: "n - n div b * b = n mod b" by (simp add: minus_div_mult_eq_mod)
  have "(n div b * b + (n mod b + m)) div b = n div b + (n mod b + m) div b"
    using assms by (intro div_mult_self3) simp
  moreover have "n div b * b + (n mod b + m) = n + m" by simp
  ultimately have e: "(n + m) div b = n div b + (n mod b + m) div b" by (simp only:)
  have "n div b * b + (n mod b + m) div b * b = (n div b + (n mod b + m) div b) * b"
    by (simp only: distrib_right)
  then show ?thesis by (simp only: r e)
qed


lemma concat_with_spill:
  "concat (case spill of None \<Rightarrow> g | Some sp \<Rightarrow> if sp \<noteq> [] then sp # g else g)
     = spill_rows spill @ concat g"
  by (cases spill) (simp_all add: spill_rows_def)

lemma put_running:
  "\<not> stop_event cq \<Longrightarrow> put cq p = (False, cq\<lparr>q_out := q_out cq @ [p]\<rparr>)"
  by (simp add: put_def stopped_def)

lemma chunk_loop_step:
  assumes b: "1 \<le> b" and run: "\<not> stop_event cq" and perm: "\<And>xs. mset (shuf xs) = mset xs"
  shows "\<exists>bs. chunk_loop shuf b cq spill (Inr g # rest) =
            chunk_loop shuf b (cq\<lparr>q_out := q_out cq @ map Batches bs\<rparr>)
              (Some (drop (length (spill_rows spill @ concat g) div nat b * nat b)
                       (spill_rows spill @ concat g))) rest
          \<and> concat (concat bs) =
              (if shuffle cq
               then shuf (take (length (spill_rows spill @ concat g) div nat b * nat b)
                            (spill_rows spill @ concat g))
               else take (length (spill_rows spill @ concat g) div nat b * nat b)
                      (spill_rows spill @ concat g))"
proof -
  define rows1 where "rows1 = spill_rows spill @ concat g"
  define k1 where "k1 = length rows1 div nat b * nat b"
  define chunks3 where "chunks3 = (if shuffle cq then shuf (take k1 rows1) else take k1 rows1)"
  have sp: "get_batch_div_chunk rows1 b = Inr (take k1 rows1, drop k1 rows1)"
    unfolding k1_def using b by (rule split_point)
  have unfold: "chunk_loop shuf b cq spill (Inr g # rest) =
      (if length chunks3 > 0 then
         (case make_tensors b chunks3 of
            Inl e \<Rightarrow> (Raised e, cq)
          | Inr batches \<Rightarrow>
              (case put cq (Batches batches) of
                 (True, cq') \<Rightarrow> (Returned, cq')
               | (False, cq') \<Rightarrow> chunk_loop shuf b cq' (Some (drop k1 rows1)) rest))
       else chunk_loop shuf b cq (Some (drop k1 rows1)) rest)"
    using run
    by (simp add: stopped_def concat_with_spill rows1_def [symmetric] sp chunks3_def Let_def)
  show ?thesis
  proof (cases "chunks3 = []")
    case True
    have "chunk_loop shuf b cq spill (Inr g # rest) =
        chunk_loop shuf b (cq\<lparr>q_out := q_out cq @ map Batches []\<rparr>) (Some (drop k1 rows1)) rest"
      using True unfold by simp
    moreover have "concat (concat ([] :: 'a list list list)) = chunks3" using True by simp
    ultimately show ?thesis unfolding chunks3_def k1_def rows1_def by blast
  next
    case False
    from make_tensors_rows [OF b False] obtain bs where
      bs: "make_tensors b chunks3 = Inr bs" "concat bs = chunks3" by blast
    have "chunk_loop shuf b cq spill (Inr g # rest) =
        chunk_loop shuf b (cq\<lparr>q_out := q_out cq @ map Batches [bs]\<rparr>) (Some (drop k1 rows1)) rest"
      using False unfold bs(1) put_running [OF run] by simp
    moreover have "concat (concat [bs]) = chunks3" using bs(2) by simp
    ultimately show ?thesis unfolding chunks3_def k1_def rows1_def by blast
  qed
qed


lemma chunk_loop_rows:
  assumes b: "1 \<le> b" and perm: "\<And>xs. mset (shuf xs) = mset xs"
  shows "\<not> stop_event cq \<Longrightarrow> length (spill_rows spill) < nat b \<Longrightarrow>
     \<exists>sp new.
       chunk_loop shuf b cq spill (map Inr gs) =
         (Exhausted sp, cq\<lparr>q_out := q_out cq @ map Batches new\<rparr>)
       \<and> mset (concat (concat new)) =
           mset (take (length (spill_rows spill @ concat (concat gs)) div nat b * nat b)
                  (spill_rows spill @ concat (concat gs)))
       \<and> (\<not> shuffle cq \<longrightarrow> concat (concat new) =
             take (length (spill_rows spill @ concat (concat gs)) div nat b * nat b)
               (spill_rows spill @ concat (concat gs)))
       \<and> spill_rows sp =
           drop (length (spill_rows spill @ concat (concat gs)) div nat b * nat b)
             (spill_rows spill @ concat (concat gs))"
proof (induction gs arbitrary: cq spill)
  case Nil
  have d: "length (spill_rows spill) div nat b = 0" using Nil(2) by simp
  show ?case by (intro exI [of _ spill] exI [of _ "[]"]) (simp add: d)
next
  case (Cons g gs)
  define rows1 where "rows1 = spill_rows spill @ concat g"
  define k1 where "k1 = length rows1 div nat b * nat b"
  define rest where "rest = concat (concat gs)"
  have nb: "0 < nat b" using b by simp
  from chunk_loop_step [OF b Cons.prems(1) perm, of spill g "map Inr gs"]
  obtain bs where
    step: "chunk_loop shuf b cq spill (Inr g # map Inr gs) =
            chunk_loop shuf b (cq\<lparr>q_out := q_out cq @ map Batches bs\<rparr>)
              (Some (drop k1 rows1)) (map Inr gs)"
    and out: "concat (concat bs) = (if shuffle cq then shuf (take k1 rows1) else take k1 rows1)"
    unfolding rows1_def k1_def by blast
  define cq1 where "cq1 = cq\<lparr>q_out := q_out cq @ map Batches bs\<rparr>"
  have run1: "\<not> stop_event cq1" using Cons.prems(1) by (simp add: cq1_def)
  have sh1: "shuffle cq1 = shuffle cq" by (simp add: cq1_def)
  have k1le: "k1 \<le> length rows1" unfolding k1_def by (rule div_times_less_eq_dividend)
  have sr: "spill_rows (Some (drop k1 rows1)) = drop k1 rows1" by (simp add: spill_rows_def)
  have "length rows1 - k1 = length rows1 mod nat b"
    unfolding k1_def by (simp add: minus_div_mult_eq_mod)
  then have len1: "length (spill_rows (Some (drop k1 rows1))) < nat b"
    using nb by (simp add: sr)
  define rows' where "rows' = drop k1 rows1 @ rest"
  define k' where "k' = length rows' div nat b * nat b"
  from Cons.IH [OF run1 len1] obtain sp new' where
    ih1: "chunk_loop shuf b cq1 (Some (drop k1 rows1)) (map Inr gs) =
            (Exhausted sp, cq1\<lparr>q_out := q_out cq1 @ map Batches new'\<rparr>)"
    and ih2: "mset (concat (concat new')) = mset (take k' rows')"
    and ih3: "\<not> shuffle cq1 \<longrightarrow> concat (concat new') = take k' rows'"
    and ih4: "spill_rows sp = drop k' rows'"
    unfolding sr rows'_def k'_def rest_def by blast
  define rows where "rows = spill_rows spill @ concat (concat (g # gs))"
  define k where "k = length rows div nat b * nat b"
  have rows_eq: "rows = rows1 @ rest" by (simp add: rows_def rows1_def rest_def)
  have "length rows' = length rows1 - k1 + length rest" by (simp add: rows'_def)
  then have "k1 + k' = (length rows1 + length rest) div nat b * nat b"
    unfolding k'_def k1_def using aligned_carry [OF nb, of "length rows1" "length rest"]
    by (simp only:)
  then have kk: "k = k1 + k'" by (simp add: k_def rows_eq)
  have tk: "take k rows = take k1 rows1 @ take k' rows'"
    unfolding kk rows_eq rows'_def using take_drop_carry(1) [OF k1le, of k' rest] by simp
  have dk: "drop k rows = drop k' rows'"
    unfolding kk rows_eq rows'_def using take_drop_carry(2) [OF k1le, of k' rest] by simp
  have r1: "chunk_loop shuf b cq spill (map Inr (g # gs)) =
      (Exhausted sp, cq\<lparr>q_out := q_out cq @ map Batches (bs @ new')\<rparr>)"
    using step ih1 by (simp add: cq1_def)
  have "mset (concat (concat bs)) = mset (take k1 rows1)" using out perm by simp
  then have r2: "mset (concat (concat (bs @ new'))) = mset (take k rows)"
    using ih2 by (simp add: tk)
  have r3: "\<not> shuffle cq \<longrightarrow> concat (concat (bs @ new')) = take k rows"
    using out ih3 sh1 by (simp add: tk)
  have r4: "spill_rows sp = drop k rows" using ih4 dk by simp
  show ?case
    using r1 r2 r3 r4 unfolding k_def rows_def
    by (intro exI [of _ sp] exI [of _ "bs @ new'"]) simp
qed


lemma chunk_logic_rows:
  assumes b: "1 \<le> b" and perm: "\<And>xs. mset (shuf xs) = mset xs"
    and run: "\<not> stop_event cq"
  shows "\<exists>new.
     chunk_logic shuf b dl cq (map Inr parts) =
       (None, cq\<lparr>q_out := q_out cq @ map Batches new\<rparr>)
     \<and> mset (concat (concat new)) =
         mset (take (if dl then length (concat parts) div nat b * nat b
                     else length (concat parts)) (concat parts))
     \<and> (\<not> shuffle cq \<longrightarrow> concat (concat new) =
           take (if dl then length (concat parts) div nat b * nat b
                 else length (concat parts)) (concat parts))"
proof -
  define rows where "rows = concat parts"
  define K where "K = length rows div nat b * nat b"
  from batch_groups [of "num_parts cq" parts "[]"] obtain gs where
    gs: "batch (num_parts cq) (map Inr parts) [] = map Inr gs" "concat (concat gs) = rows"
    unfolding rows_def by auto
  have l0: "length (spill_rows None) < nat b" using b by (simp add: spill_rows_def)
  from chunk_loop_rows [OF b perm run l0, of gs] obtain sp new1 where
    loop: "chunk_loop shuf b cq None (map Inr gs) =
            (Exhausted sp, cq\<lparr>q_out := q_out cq @ map Batches new1\<rparr>)"
    and m1: "mset (concat (concat new1)) = mset (take K rows)"
    and o1: "\<not> shuffle cq \<longrightarrow> concat (concat new1) = take K rows"
    and s1: "spill_rows sp = drop K rows"
    unfolding K_def by (auto simp: spill_rows_def gs(2))
  define cq1 where "cq1 = cq\<lparr>q_out := q_out cq @ map Batches new1\<rparr>"
  have run1: "\<not> stop_event cq1" using run by (simp add: cq1_def)
  have start: "chunk_logic shuf b dl cq (map Inr parts) =
      (case sp of
         None \<Rightarrow> (None, cq1)
       | Some s \<Rightarrow>
           (if \<not> dl \<and> s \<noteq> [] then
              (case make_tensors b s of
                 Inl e \<Rightarrow> (Some e, cq1)
               | Inr batches \<Rightarrow> (None, snd (put cq1 (Batches batches))))
            else (None, cq1)))"
    unfolding cq1_def by (simp add: chunk_logic_def gs(1) loop)
  show ?thesis
  proof (cases "\<not> dl \<and> spill_rows sp \<noteq> []")
    case True
    then obtain s where sp: "sp = Some s" and sne: "s \<noteq> []"
      by (cases sp) (simp_all add: spill_rows_def)
    from make_tensors_rows [OF b sne] obtain bs where
      bs: "make_tensors b s = Inr bs" "concat bs = s" by blast
    have sd: "s = drop K rows" using s1 by (simp add: sp spill_rows_def)
    have res: "chunk_logic shuf b dl cq (map Inr parts) =
        (None, cq\<lparr>q_out := q_out cq @ map Batches (new1 @ [bs])\<rparr>)"
    proof -
      have "chunk_logic shuf b dl cq (map Inr parts) = (None, snd (put cq1 (Batches bs)))"
        unfolding start sp using True sne bs(1) by simp
      then show ?thesis using put_running [OF run1] by (simp add: cq1_def)
    qed
    have cc: "concat (concat (new1 @ [bs])) = concat (concat new1) @ drop K rows"
      using bs(2) sd by simp
    have ms: "mset (concat (concat (new1 @ [bs]))) = mset rows"
    proof -
      have "mset (take K rows) + mset (drop K rows) = mset (take K rows @ drop K rows)"
        by (simp only: mset_append)
      then have "mset (take K rows) + mset (drop K rows) = mset rows"
        by (simp only: append_take_drop_id)
      then show ?thesis unfolding cc using m1 by (simp only: mset_append)
    qed
    have os: "\<not> shuffle cq \<longrightarrow> concat (concat (new1 @ [bs])) = rows"
      unfolding cc using o1 by simp
    show ?thesis using True res ms os unfolding rows_def by (intro exI [of _ "new1 @ [bs]"]) simp
  next
    case False
    have res: "chunk_logic shuf b dl cq (map Inr parts) =
        (None, cq\<lparr>q_out := q_out cq @ map Batches new1\<rparr>)"
      unfolding start using False by (cases sp) (auto simp: cq1_def spill_rows_def)
    have tk: "take (if dl then K else length rows) rows = take K rows"
    proof (cases dl)
      case True
      then show ?thesis by simp
    next
      case dl: False
      then have "drop K rows = []" using False s1 by simp
      then have "length rows \<le> K" by simp
      then show ?thesis using dl by simp
    qed
    show ?thesis
      using res m1 o1 tk unfolding rows_def K_def by (intro exI [of _ new1]) simp
  qed
qed

text \<open>
  Claim C1. Let the worker run to completion on a partition stream of \<open>R\<close> rows in all,
  with a batch size of at least one, any \<^verbatim>\<open>parts_per_chunk\<close>, no stop request, and a row
  shuffle that permutes. Then every packet it hands over is a list of batches; the rows of
  all batches, which the consumer yields one batch at a time, number \<open>R\<close> without
  \<^verbatim>\<open>drop_last\<close> and \<open>floor(R / batch_size) * batch_size\<close> with it; and the batches hold
  every row of the stream once, except the rows of the final undersized spill (the last
  \<open>R mod batch_size\<close> rows) under \<^verbatim>\<open>drop_last\<close>. Without shuffling the rows come in the order
  of the stream.
\<close>

theorem epoch_rows:
  assumes "1 \<le> bsz" and "\<not> stop_event cq" and "q_out cq = []"
    and "itr cq = map Inr parts" and "\<forall>xs. mset (shuffle_df xs) = mset xs"
  shows "(\<forall>p \<in> set (q_out (load_chunks shuffle_df bsz dl cq)). \<exists>bs. p = Batches bs)
    \<and> sum_list (map length (queued_batches (load_chunks shuffle_df bsz dl cq))) =
        (if dl then length (concat parts) div nat bsz * nat bsz
         else length (concat parts))
    \<and> mset (concat (queued_batches (load_chunks shuffle_df bsz dl cq))) =
        mset (take (if dl then length (concat parts) div nat bsz * nat bsz
                    else length (concat parts)) (concat parts))
    \<and> (\<not> shuffle cq \<longrightarrow>
         concat (queued_batches (load_chunks shuffle_df bsz dl cq)) =
           take (if dl then length (concat parts) div nat bsz * nat bsz
                 else length (concat parts)) (concat parts))"
proof -
  define kept where "kept = (if dl then length (concat parts) div nat bsz * nat bsz
         else length (concat parts))"
  have perm: "\<And>xs. mset (shuffle_df xs) = mset xs" using assms(5) by simp
  from chunk_logic_rows [OF assms(1) perm assms(2), of dl parts] obtain new where
    cl: "chunk_logic shuffle_df bsz dl cq (map Inr parts) =
          (None, cq\<lparr>q_out := q_out cq @ map Batches new\<rparr>)"
    and ms: "mset (concat (concat new)) = mset (take kept (concat parts))"
    and os: "\<not> shuffle cq \<longrightarrow> concat (concat new) = take kept (concat parts)"
    unfolding kept_def by blast
  have lc: "load_chunks shuffle_df bsz dl cq = cq\<lparr>q_out := map Batches new\<rparr>"
    using cl assms(3,4) by (simp add: load_chunks_def)
  have qb: "queued_batches (load_chunks shuffle_df bsz dl cq) = concat new"
    by (simp add: lc queued_batches_def comp_def)
  have kle: "kept \<le> length (concat parts)"
    unfolding kept_def by (simp add: div_times_less_eq_dividend)
  have "sum_list (map length (concat new)) = length (concat (concat new))"
    by (simp add: length_concat)
  also have "\<dots> = size (mset (concat (concat new)))" by simp
  also have "\<dots> = size (mset (take kept (concat parts)))" by (simp only: ms)
  also have "\<dots> = kept" using kle by simp
  finally have sm: "sum_list (map length (concat new)) = kept" .
  have p: "\<forall>p \<in> set (q_out (load_chunks shuffle_df bsz dl cq)). \<exists>bs. p = Batches bs"
    by (auto simp: lc)
  show ?thesis using p sm ms os unfolding qb kept_def by simp
qed


theorem epoch_rows_witness:
  "sum_list (map length (queued_batches (load_chunks rev 3 True
      \<lparr>num_parts = 2, shuffle = False, stop_event = False, q_out = [],
       itr = map Inr [[1, 2], [3, 4, 5], [6, 7], [8, 9, 10, 11 :: nat]]\<rparr>))) = 9
   \<and> concat (queued_batches (load_chunks rev 3 True
      \<lparr>num_parts = 2, shuffle = False, stop_event = False, q_out = [],
       itr = map Inr [[1, 2], [3, 4, 5], [6, 7], [8, 9, 10, 11 :: nat]]\<rparr>))
      = [1, 2, 3, 4, 5, 6, 7, 8, 9]
   \<and> sum_list (map length (queued_batches (load_chunks rev 3 False
      \<lparr>num_parts = 2, shuffle = True, stop_event = False, q_out = [],
       itr = map Inr [[1, 2], [3, 4, 5], [6, 7], [8, 9, 10, 11 :: nat]]\<rparr>))) = 11"
proof -
  define parts where "parts = [[1, 2], [3, 4, 5], [6, 7], [8, 9, 10, 11 :: nat]]"
  define cq where "cq = \<lparr>num_parts = 2, shuffle = False, stop_event = False,
    q_out = ([] :: nat packet list), itr = map Inr parts\<rparr>"
  define cq2 where "cq2 = \<lparr>num_parts = 2, shuffle = True, stop_event = False,
    q_out = ([] :: nat packet list), itr = map Inr parts\<rparr>"
  have h1: "(1::int) \<le> 3" by simp
  have h2: "\<not> stop_event cq" "\<not> stop_event cq2" by (simp_all add: cq_def cq2_def)
  have h3: "q_out cq = []" "q_out cq2 = []" by (simp_all add: cq_def cq2_def)
  have h4: "itr cq = map Inr parts" "itr cq2 = map Inr parts" by (simp_all add: cq_def cq2_def)
  have h5: "\<forall>xs :: nat list. mset (rev xs) = mset xs" by simp
  have ns: "\<not> shuffle cq" by (simp add: cq_def)
  have len: "length (concat parts) = 11" by (simp add: parts_def)
  have k: "length (concat parts) div nat 3 * nat 3 = 9" by (simp add: len)
  have tk: "take 9 (concat parts) = [1, 2, 3, 4, 5, 6, 7, 8, 9]" by (simp add: parts_def)
  note a = epoch_rows [OF h1 h2(1) h3(1) h4(1) h5, of True]
  note b = epoch_rows [OF h1 h2(2) h3(2) h4(2) h5, of False]
  have r1: "sum_list (map length (queued_batches (load_chunks rev 3 True cq))) = 9"
    using a k by simp
  have r2: "concat (queued_batches (load_chunks rev 3 True cq)) = [1, 2, 3, 4, 5, 6, 7, 8, 9]"
    using a ns k tk by simp
  have r3: "sum_list (map length (queued_batches (load_chunks rev 3 False cq2))) = 11"
    using b len by simp
  show ?thesis using r1 r2 r3 unfolding cq_def cq2_def parts_def by simp
qed

subsection \<open>Stopping and restarting\<close>

lemma get_buff_Some: "buff ld = Some cq \<Longrightarrow> get_buff ld = Inr (cq, ld)"
  by (simp add: get_buff_def)

lemma stop_no_workers: "workers ld = None \<Longrightarrow> stop ld = Inr (ld\<lparr>batch_itr := None\<rparr>)"
  by (simp add: stop_def)

lemma stop_result:
  assumes "stop ld = Inr ld'"
  shows "workers ld' = None" and "batch_itr ld' = None"
proof -
  show "workers ld' = None"
  proof (cases "workers ld")
    case None
    then show ?thesis using assms by (auto simp: stop_def)
  next
    case (Some ts)
    then show ?thesis using assms
      by (auto simp: stop_def Let_def split: sum.splits prod.splits)
  qed
  show "batch_itr ld' = None"
  proof (cases "workers ld")
    case None
    then show ?thesis using assms by (auto simp: stop_def)
  next
    case (Some ts)
    then show ?thesis using assms
      by (auto simp: stop_def Let_def split: sum.splits prod.splits)
  qed
qed

lemma get_buff_counter:
  "get_buff ld = Inr (cq, ld1) \<Longrightarrow> num_rows_processed ld1 = num_rows_processed ld"
  by (auto simp: get_buff_def Let_def split: option.splits sum.splits)

text \<open>
  Claim C9. \<^verbatim>\<open>stop()\<close> is idempotent: after a completed \<^verbatim>\<open>stop()\<close>, a second call leaves the
  whole loader state (worker list, queue, cached batch iterator included) as it is; and
  beginning a new epoch after \<^verbatim>\<open>stop()\<close> sets the processed-row counter to 0.
\<close>

theorem stop_idempotent:
  assumes "stop ld = Inr ld'"
  shows "stop ld' = Inr ld' \<and> num_rows_processed (snd (iter_loader perm ld')) = 0"
proof -
  have w: "workers ld' = None" and bi: "batch_itr ld' = None"
    using stop_result [OF assms] by simp_all
  have again: "stop ld' = Inr ld'"
    using bi by (simp add: stop_no_workers [OF w])
  have "num_rows_processed (snd (iter_loader perm ld')) = 0"
    by (auto simp: iter_loader_def again Let_def dest: get_buff_counter split: sum.splits prod.splits)
  then show ?thesis using again by simp
qed


theorem stop_idempotent_witness:
  "\<exists>ld'. stop \<lparr>dataset = \<lparr>ds_schema = [], ds_parts = [Inr [1, 2, 3 :: nat]]\<rparr>,
        batch_size = 2, shuffle_on = False, parts_per_chunk = 1,
        global_size = 1, global_rank = 0, drop_last = False, indices = [0],
        sparse_names = [], sparse_max = Map.empty, sparse_as_dense = {},
        dtype_reverse_map = [], epochs = 1,
        cat_names = [], cont_names = [], label_names = [],
        num_rows_processed = 2,
        buff = Some \<lparr>num_parts = 1, shuffle = False, stop_event = False,
                      q_out = [Batches [[3]]], itr = [Inr [1, 2, 3]]\<rparr>,
        batch_itr = Some [], workers = Some [True]\<rparr> = Inr ld'
     \<and> stop ld' = Inr ld'
     \<and> num_rows_processed ld' = 2
     \<and> num_rows_processed (snd (iter_loader rev ld')) = 0"
proof -
  define L :: "nat loader" where "L = \<lparr>dataset = \<lparr>ds_schema = [], ds_parts = [Inr [1, 2, 3 :: nat]]\<rparr>,
        batch_size = 2, shuffle_on = False, parts_per_chunk = 1,
        global_size = 1, global_rank = 0, drop_last = False, indices = [0],
        sparse_names = [], sparse_max = Map.empty, sparse_as_dense = {},
        dtype_reverse_map = [], epochs = 1,
        cat_names = [], cont_names = [], label_names = [],
        num_rows_processed = 2,
        buff = Some \<lparr>num_parts = 1, shuffle = False, stop_event = False,
                      q_out = [Batches [[3]]], itr = [Inr [1, 2, 3]]\<rparr>,
        batch_itr = Some [], workers = Some [True]\<rparr>"
  define L' where "L' = L\<lparr>buff := Some \<lparr>num_parts = 1, shuffle = False, stop_event = True,
                      q_out = [], itr = [Inr [1, 2, 3]]\<rparr>, workers := None, batch_itr := None\<rparr>"
  have s: "stop L = Inr L'"
    by (simp add: stop_def get_buff_def L_def L'_def stopped_def cq_stop_def)
  have n: "num_rows_processed L' = 2" by (simp add: L'_def L_def)
  from stop_idempotent [OF s, of rev] s n show ?thesis unfolding L_def by blast
qed

subsection \<open>Exceptions of the worker\<close>

lemma put_stop_event: "stop_event (snd (put cq p)) = stop_event cq"
  by (simp add: put_def)

lemma chunk_loop_stop_event:
  "stop_event (snd (chunk_loop shuf b cq spill gs)) = stop_event cq"
proof (induction shuf b cq spill gs rule: chunk_loop.induct)
  case (1 shuf b cq spill)
  then show ?case by simp
next
  case (2 shuf b cq spill e groups)
  then show ?case by simp
next
  case (3 shuf b cq spill chunks groups)
  show ?case
    using 3
    by (auto simp: Let_def put_def split: sum.splits prod.splits if_splits bool.splits)
qed


lemma chunk_logic_stop_event:
  assumes "chunk_logic shuf b dl cq it = (r, cq')"
  shows "stop_event cq' = stop_event cq"
proof -
  obtain le cq1 where loop: "chunk_loop shuf b cq None (batch (num_parts cq) it []) = (le, cq1)"
    by (cases "chunk_loop shuf b cq None (batch (num_parts cq) it [])")
  have s1: "stop_event cq1 = stop_event cq"
    using chunk_loop_stop_event [of shuf b cq None "batch (num_parts cq) it []"] loop by simp
  have "stop_event cq' = stop_event cq1"
    using assms loop
    by (auto simp: chunk_logic_def put_def split: loop_end.splits option.splits sum.splits if_splits)
  then show ?thesis using s1 by simp
qed

text \<open>
  Claim C6, as stated, fails when the stop flag is set: \<^verbatim>\<open>put\<close> returns \<^verbatim>\<open>True\<close> without
  enqueueing. Here the source raises at the first \<^verbatim>\<open>next(itr)\<close> while the flag is set;
  the exception escapes \<^verbatim>\<open>chunk_logic\<close>, is caught by \<^verbatim>\<open>load_chunks\<close>, and the queue stays
  empty.
\<close>

theorem exception_dropped_when_stopped:
  "fst (chunk_logic id 1 False
      \<lparr>num_parts = 1, shuffle = False, stop_event = True, q_out = [],
       itr = [Inl (SourceError ''boom'') :: exn + nat list]\<rparr>
      [Inl (SourceError ''boom'')]) = Some (SourceError ''boom'')
   \<and> q_out (load_chunks id 1 False
      \<lparr>num_parts = 1, shuffle = False, stop_event = True, q_out = [],
       itr = [Inl (SourceError ''boom'') :: exn + nat list]\<rparr>) = []"
  by (simp add: chunk_logic_def load_chunks_def put_def stopped_def)

text \<open>
  Claim C6, amended. An exception that escapes \<^verbatim>\<open>chunk_logic\<close> in the worker is caught by
  \<^verbatim>\<open>load_chunks\<close>; while the stop flag is not set, the exception object is handed over as
  the last packet in place of a batch list, and with the flag set it is discarded; in both
  cases the worker ends. When the consumer takes a packet that is an exception, it calls
  \<^verbatim>\<open>stop()\<close>, which leaves no workers and no cached batch iterator, and raises that
  exception.
\<close>

theorem exception_propagation:
  "(chunk_logic shuf b dl cq (itr cq) = (Some e, cq') \<longrightarrow>
      load_chunks shuf b dl cq =
        (if stop_event cq then cq' else cq'\<lparr>q_out := q_out cq' @ [Failure e]\<rparr>))
   \<and> (buff ld = Some cq \<and> q_out cq = Failure e # rest \<longrightarrow>
        (\<exists>ld'. stop (ld\<lparr>buff := Some (cq\<lparr>q_out := rest\<rparr>)\<rparr>) = Inr ld'
           \<and> fetch_chunk ld = Raising e ld'
           \<and> batch_itr ld' = None \<and> workers ld' = None))"
proof (intro conjI impI)
  assume run: "chunk_logic shuf b dl cq (itr cq) = (Some e, cq')"
  have se: "stop_event cq' = stop_event cq" using run by (rule chunk_logic_stop_event)
  show "load_chunks shuf b dl cq =
        (if stop_event cq then cq' else cq'\<lparr>q_out := q_out cq' @ [Failure e]\<rparr>)"
    by (simp add: load_chunks_def run put_def stopped_def se)
next
  assume h: "buff ld = Some cq \<and> q_out cq = Failure e # rest"
  define ld2 where "ld2 = ld\<lparr>buff := Some (cq\<lparr>q_out := rest\<rparr>)\<rparr>"
  have gb: "get_buff ld = Inr (cq, ld)" using h by (simp add: get_buff_Some)
  have g: "get cq = Some (Failure e, cq\<lparr>q_out := rest\<rparr>)" using h by (simp add: get_def)
  have b2: "get_buff ld2 = Inr (cq\<lparr>q_out := rest\<rparr>, ld2)" by (simp add: get_buff_Some ld2_def)
  obtain ld' where st: "stop ld2 = Inr ld'"
    using b2 by (cases "workers ld2") (simp_all add: stop_def Let_def)
  have f: "fetch_chunk ld = Raising e ld'"
    by (simp add: fetch_chunk_def gb g ld2_def [symmetric] st)
  show "\<exists>ld'. stop (ld\<lparr>buff := Some (cq\<lparr>q_out := rest\<rparr>)\<rparr>) = Inr ld'
           \<and> fetch_chunk ld = Raising e ld'
           \<and> batch_itr ld' = None \<and> workers ld' = None"
    using st f stop_result [OF st] unfolding ld2_def by blast
qed


theorem exception_propagation_witness:
  "q_out (load_chunks id 2 False
      \<lparr>num_parts = 1, shuffle = False, stop_event = False, q_out = [],
       itr = [Inr [5, 7 :: nat], Inl (SourceError ''boom'')]\<rparr>)
     = [Batches [[5, 7]], Failure (SourceError ''boom'')]
   \<and> (\<exists>ld'. fetch_chunk \<lparr>dataset = \<lparr>ds_schema = [], ds_parts = [Inr [5, 7 :: nat]]\<rparr>,
        batch_size = 2, shuffle_on = False, parts_per_chunk = 1,
        global_size = 1, global_rank = 0, drop_last = False, indices = [0],
        sparse_names = [], sparse_max = Map.empty, sparse_as_dense = {},
        dtype_reverse_map = [], epochs = 1,
        cat_names = [], cont_names = [], label_names = [],
        num_rows_processed = 2,
        buff = Some \<lparr>num_parts = 1, shuffle = False, stop_event = False,
                      q_out = [Failure (SourceError ''boom'')], itr = []\<rparr>,
        batch_itr = Some [], workers = Some [False]\<rparr> = Raising (SourceError ''boom'') ld'
      \<and> batch_itr ld' = None \<and> workers ld' = None)"
proof -
  define CQ :: "nat chunk_queue" where "CQ = \<lparr>num_parts = 1, shuffle = False, stop_event = False,
       q_out = [], itr = [Inr [5, 7 :: nat], Inl (SourceError ''boom'')]\<rparr>"
  define CQ2 :: "nat chunk_queue" where "CQ2 = \<lparr>num_parts = 1, shuffle = False,
       stop_event = False, q_out = [Failure (SourceError ''boom'')], itr = []\<rparr>"
  define L :: "nat loader" where "L = \<lparr>dataset = \<lparr>ds_schema = [], ds_parts = [Inr [5, 7 :: nat]]\<rparr>,
        batch_size = 2, shuffle_on = False, parts_per_chunk = 1,
        global_size = 1, global_rank = 0, drop_last = False, indices = [0],
        sparse_names = [], sparse_max = Map.empty, sparse_as_dense = {},
        dtype_reverse_map = [], epochs = 1,
        cat_names = [], cont_names = [], label_names = [],
        num_rows_processed = 2, buff = Some CQ2,
        batch_itr = Some [], workers = Some [False]\<rparr>"
  have seg: "get_segment_lengths 2 2 = Inr [2]"
    by (simp add: get_segment_lengths_def num_steps_div Let_def)
  have sp: "get_batch_div_chunk [5, 7 :: nat] 2 = Inr ([5, 7], [])"
    using split_point [of 2 "[5, 7 :: nat]"] by simp
  have mt: "make_tensors 2 [5, 7 :: nat] = Inr [[5, 7]]"
    by (simp add: make_tensors_def seg)
  have run: "chunk_logic id 2 False CQ (itr CQ) =
      (Some (SourceError ''boom''), CQ\<lparr>q_out := [Batches [[5, 7]]]\<rparr>)"
    by (simp add: chunk_logic_def CQ_def Let_def stopped_def sp mt put_def)
  have a: "q_out (load_chunks id 2 False CQ) = [Batches [[5, 7]], Failure (SourceError ''boom'')]"
    using exception_propagation [of id 2 False CQ "SourceError ''boom''"
        "CQ\<lparr>q_out := [Batches [[5, 7]]]\<rparr>", THEN conjunct1] run
    by (simp add: CQ_def)
  have h: "buff L = Some CQ2 \<and> q_out CQ2 = Failure (SourceError ''boom'') # []"
    by (simp add: L_def CQ2_def)
  have b: "\<exists>ld'. fetch_chunk L = Raising (SourceError ''boom'') ld'
      \<and> batch_itr ld' = None \<and> workers ld' = None"
    using exception_propagation [where cq = CQ2 and e = "SourceError ''boom''" and ld = L
        and rest = "[]", THEN conjunct2, THEN mp, OF h]
    by blast
  show ?thesis using a b unfolding CQ_def CQ2_def L_def by simp
qed

subsection \<open>Validation of the schema at construction\<close>

lemma add_dtype_nonempty: "add_dtype m d c \<noteq> []"
  by (cases m) (auto simp: add_dtype_def)

lemma init_columns_fails_iff:
  "(\<exists>e. init_columns sch ld = Inl e) \<longleftrightarrow>
     (\<exists>(name, spec) \<in> set sch. is_list spec \<and> \<not> is_ragged spec \<and> value_count spec = None)"
proof (induction sch arbitrary: ld)
  case Nil
  then show ?case by simp
next
  case (Cons a sch)
  obtain name spec where a: "a = (name, spec)" by (cases a)
  show ?case
    unfolding a
    by (cases "value_count spec") (auto simp: Let_def Cons.IH split: prod.splits)
qed

lemma init_columns_dtypes:
  "init_columns sch ld = Inr ld' \<Longrightarrow> dtype_reverse_map ld \<noteq> [] \<or> sch \<noteq> [] \<Longrightarrow>
     dtype_reverse_map ld' \<noteq> []"
proof (induction sch arbitrary: ld)
  case Nil
  then show ?case by simp
next
  case (Cons a sch)
  obtain name spec where a: "a = (name, spec)" by (cases a)
  define ld1 where "ld1 = ld\<lparr>dtype_reverse_map := add_dtype (dtype_reverse_map ld) (dtype spec) name\<rparr>"
  have ne: "dtype_reverse_map ld1 \<noteq> []" by (simp add: ld1_def add_dtype_nonempty)
  from Cons.prems(1) obtain ldm where
    "init_columns sch ldm = Inr ld'" and "dtype_reverse_map ldm = dtype_reverse_map ld1"
    unfolding a
    by (auto simp: Let_def ld1_def split: if_splits option.splits prod.splits)
  then show ?case using Cons.IH [of ldm] ne by simp
qed


text \<open>
  When the constructor fails: exactly for a schema without any column, and for a schema
  with a list column declared non-ragged that has no value count.
\<close>

lemma init_fails_iff:
  "(\<exists>e. init ds bsz shuf ppc gsize grank dlast = Inl e) \<longleftrightarrow>
     ds_schema ds = [] \<or>
     (\<exists>(name, spec) \<in> set (ds_schema ds).
        is_list spec \<and> \<not> is_ragged spec \<and> value_count spec = None)"
proof -
  define ld0 :: "'a loader" where "ld0 = \<lparr>dataset = ds, batch_size = bsz, shuffle_on = shuf,
      parts_per_chunk = ppc,
      global_size = or_default gsize 1, global_rank = or_default grank 0,
      drop_last = dlast, indices = arange (npartitions ds),
      sparse_names = [], sparse_max = Map.empty, sparse_as_dense = {},
      dtype_reverse_map = [], epochs = 1,
      cat_names = [], cont_names = [], label_names = [],
      num_rows_processed = 0, buff = None, batch_itr = None, workers = None\<rparr>"
  have init_eq: "init ds bsz shuf ppc gsize grank dlast =
      (case init_columns (ds_schema ds) ld0 of
         Inl e \<Rightarrow> Inl e
       | Inr ld1 \<Rightarrow>
           (if length (map fst (dtype_reverse_map
                 (ld1\<lparr>epochs := 1,
                       cat_names := select_by_tag CATEGORICAL (ds_schema ds),
                       cont_names := select_by_tag CONTINUOUS (ds_schema ds),
                       label_names := select_by_tag TARGET (ds_schema ds)\<rparr>))) = 0 then
              Inl (ValueError
                (''Neither Categorical or Continuous columns were found by the dataloader. ''
                 @ ''You must either specify the cat_names, cont_names and ''
                 @ ''label_names properties or supply a schema.pbtxt file in dataset directory.''))
            else Inr (ld1\<lparr>epochs := 1,
                       cat_names := select_by_tag CATEGORICAL (ds_schema ds),
                       cont_names := select_by_tag CONTINUOUS (ds_schema ds),
                       label_names := select_by_tag TARGET (ds_schema ds)\<rparr>
                     \<lparr>num_rows_processed := 0, buff := None,
                      batch_itr := None, workers := None\<rparr>)))"
    unfolding init_def ld0_def Let_def by (rule refl)
  show ?thesis
  proof (cases "init_columns (ds_schema ds) ld0")
    case (Inl e)
    then have "\<exists>(name, spec) \<in> set (ds_schema ds).
        is_list spec \<and> \<not> is_ragged spec \<and> value_count spec = None"
      using init_columns_fails_iff [of "ds_schema ds" ld0] by blast
    moreover have "init ds bsz shuf ppc gsize grank dlast = Inl e"
      using Inl by (simp add: init_eq)
    ultimately show ?thesis by blast
  next
    case (Inr ld1)
    then have nb: "\<not> (\<exists>(name, spec) \<in> set (ds_schema ds).
        is_list spec \<and> \<not> is_ragged spec \<and> value_count spec = None)"
      using init_columns_fails_iff [of "ds_schema ds" ld0] by auto
    have d: "ds_schema ds \<noteq> [] \<Longrightarrow> dtype_reverse_map ld1 \<noteq> []"
      using init_columns_dtypes [OF Inr] by simp
    have e: "ds_schema ds = [] \<Longrightarrow> dtype_reverse_map ld1 = []"
      using Inr by (auto simp: ld0_def)
    have "(\<exists>e. init ds bsz shuf ppc gsize grank dlast = Inl e) \<longleftrightarrow> dtype_reverse_map ld1 = []"
      using Inr by (simp add: init_eq)
    then show ?thesis using nb d e by blast
  qed
qed

text \<open>
  Claim C7 says that construction fails when the schema has no categorical, continuous or
  label column, as the message of the second \<^verbatim>\<open>ValueError\<close> does. The guard tests
  \<^verbatim>\<open>dtype_reverse_map\<close>, which holds every column of the schema whatever its tags: for the
  schema of one untagged scalar column the constructor returns a loader whose
  \<^verbatim>\<open>cat_names\<close>, \<^verbatim>\<open>cont_names\<close> and \<^verbatim>\<open>label_names\<close> are all empty.
\<close>

theorem init_untagged_schema:
  "\<exists>ld. init \<lparr>ds_schema = [(''id'', \<lparr>dtype = ''int64'', tags = [OTHER_TAG], is_list = False,
                                 is_ragged = False, value_count = None\<rparr>)],
              ds_parts = [Inr [5, 7 :: nat]]\<rparr> 2 False 1 None None False = Inr ld
     \<and> cat_names ld = [] \<and> cont_names ld = [] \<and> label_names ld = []
     \<and> dtype_reverse_map ld = [(''int64'', [''id''])]"
  by (simp add: init_def Let_def add_dtype_def select_by_tag_def)

subsection \<open>Sparse materialization and the maximum length\<close>

lemma length_diffs: "length (diffs xs) = length xs - 1"
  by (simp add: diffs_def)

lemma nth_diffs: "Suc i < length xs \<Longrightarrow> diffs xs ! i = xs ! Suc i - xs ! i"
  by (simp add: diffs_def nth_tl)

lemma length_row_lengths: "length (row_lengths vals offs) = length offs"
  by (simp add: row_lengths_def length_diffs)

lemma nth_row_lengths:
  assumes "i < length offs"
  shows "row_lengths vals offs ! i = (offs @ [int (length vals)]) ! Suc i - offs ! i"
proof -
  have "row_lengths vals offs ! i =
      (offs @ [int (length vals)]) ! Suc i - (offs @ [int (length vals)]) ! i"
    unfolding row_lengths_def using assms by (intro nth_diffs) simp
  then show ?thesis using assms by (simp add: nth_append)
qed

lemma max_exceeds_iff:
  assumes "xs \<noteq> []"
  shows "(bnd < Max (set xs)) = (\<exists>i < length xs. bnd < xs ! i)"
proof -
  have "(bnd < Max (set xs)) = (\<exists>x \<in> set xs. bnd < x)"
    using assms by (simp add: Max_gr_iff)
  also have "\<dots> = (\<exists>i < length xs. bnd < xs ! i)"
    by (metis in_set_conv_nth)
  finally show ?thesis .
qed

text \<open>
  Claim C2. For a list column with a configured maximum length and a batch of at least one
  row, \<^verbatim>\<open>_to_sparse_tensor\<close> raises exactly when the largest row length of the batch, taken
  from the differences of the offsets, exceeds the configured maximum, which is when some
  row is longer than the maximum. When it raises, the result is the \<^verbatim>\<open>ValueError\<close> and no
  tensor, and its message holds the configured limit and the observed maximum; otherwise
  the tensor is built with the configured limit as its width.
\<close>

theorem to_sparse_tensor_spec:
  assumes "sparse_max ld c = Some seq_limit" and "offs \<noteq> []"
  shows "((\<exists>e. to_sparse_tensor ld (ListPair vals offs) c = Inl e) \<longleftrightarrow>
            seq_limit < Max (set (row_lengths vals offs)))
    \<and> (seq_limit < Max (set (row_lengths vals offs)) \<longleftrightarrow>
          (\<exists>i < length offs. seq_limit < (offs @ [int (length vals)]) ! Suc i - offs ! i))
    \<and> (seq_limit < Max (set (row_lengths vals offs)) \<longrightarrow>
          to_sparse_tensor ld (ListPair vals offs) c =
            Inl (ValueError (seq_len_message seq_limit (Max (set (row_lengths vals offs)))))
          \<and> (\<exists>pre mid post. seq_len_message seq_limit (Max (set (row_lengths vals offs))) =
                pre @ str_int seq_limit @ mid
                @ str_int (Max (set (row_lengths vals offs))) @ post))
    \<and> (\<not> seq_limit < Max (set (row_lengths vals offs)) \<longrightarrow>
          (\<exists>t. to_sparse_tensor ld (ListPair vals offs) c = Inr t
             \<and> sp_vals t = vals \<and> sp_num_rows t = length offs \<and> sp_seq_limit t = seq_limit))"
proof -
  define obs where "obs = Max (set (row_lengths vals offs))"
  have ne: "row_lengths vals offs \<noteq> []"
    using assms(2) length_row_lengths [of vals offs] by (cases "row_lengths vals offs") simp_all
  have run: "to_sparse_tensor ld (ListPair vals offs) c =
      (if obs > seq_limit then Inl (ValueError (seq_len_message seq_limit obs))
       else Inr (build_sparse_tensor vals offs (row_lengths vals offs) (length offs) seq_limit
                   (c \<in> sparse_as_dense ld)))"
    using assms(1) ne
    by (simp add: to_sparse_tensor_def pull_values_offsets_def get_max_seq_len_def obs_def)
  have a: "(\<exists>e. to_sparse_tensor ld (ListPair vals offs) c = Inl e) \<longleftrightarrow> seq_limit < obs"
    by (simp add: run)
  have "(seq_limit < obs) =
      (\<exists>i < length (row_lengths vals offs). seq_limit < row_lengths vals offs ! i)"
    unfolding obs_def using ne by (rule max_exceeds_iff)
  then have b: "seq_limit < obs \<longleftrightarrow>
      (\<exists>i < length offs. seq_limit < (offs @ [int (length vals)]) ! Suc i - offs ! i)"
    by (auto simp: length_row_lengths nth_row_lengths)
  have msg: "\<exists>pre mid post. seq_len_message seq_limit obs =
      pre @ str_int seq_limit @ mid @ str_int obs @ post"
    unfolding seq_len_message_def
    by (intro exI [of _ "''The default sequence length has been configured to ''"]
          exI [of _ "'' but the largest sequence in this batch have ''"]
          exI [of _ "'' length''"]) simp
  have c: "seq_limit < obs \<longrightarrow>
      to_sparse_tensor ld (ListPair vals offs) c = Inl (ValueError (seq_len_message seq_limit obs))
      \<and> (\<exists>pre mid post. seq_len_message seq_limit obs =
            pre @ str_int seq_limit @ mid @ str_int obs @ post)"
    using msg by (simp add: run)
  have d: "\<not> seq_limit < obs \<longrightarrow>
      (\<exists>t. to_sparse_tensor ld (ListPair vals offs) c = Inr t
         \<and> sp_vals t = vals \<and> sp_num_rows t = length offs \<and> sp_seq_limit t = seq_limit)"
    by (simp add: run build_sparse_tensor_def)
  show ?thesis using a b c d unfolding obs_def by blast
qed


lemma seq_len_message_5_6: "seq_len_message 5 6 =
   ''The default sequence length has been configured to 5 but the largest sequence in this batch have 6 length''"
  by code_simp

theorem to_sparse_tensor_spec_witness:
  "to_sparse_tensor
     \<lparr>dataset = \<lparr>ds_schema = [], ds_parts = [Inr [5, 7 :: nat]]\<rparr>,
      batch_size = 2, shuffle_on = False, parts_per_chunk = 1,
      global_size = 1, global_rank = 0, drop_last = False, indices = [0],
      sparse_names = [''seq''], sparse_max = [''seq'' \<mapsto> 5], sparse_as_dense = {},
      dtype_reverse_map = [], epochs = 1,
      cat_names = [], cont_names = [], label_names = [],
      num_rows_processed = 0, buff = None, batch_itr = None, workers = None\<rparr>
     (ListPair [10, 11, 12, 13, 14, 15, 16, 17 :: nat] [0, 2]) ''seq''
   = Inl (ValueError
       ''The default sequence length has been configured to 5 but the largest sequence in this batch have 6 length'')
   \<and> (\<exists>t. to_sparse_tensor
     \<lparr>dataset = \<lparr>ds_schema = [], ds_parts = [Inr [5, 7 :: nat]]\<rparr>,
      batch_size = 2, shuffle_on = False, parts_per_chunk = 1,
      global_size = 1, global_rank = 0, drop_last = False, indices = [0],
      sparse_names = [''seq''], sparse_max = [''seq'' \<mapsto> 5], sparse_as_dense = {},
      dtype_reverse_map = [], epochs = 1,
      cat_names = [], cont_names = [], label_names = [],
      num_rows_processed = 0, buff = None, batch_itr = None, workers = None\<rparr>
     (ListPair [10, 11, 12, 13, 14, 15, 16, 17 :: nat] [0, 4]) ''seq'' = Inr t
      \<and> sp_seq_limit t = 5 \<and> sp_num_rows t = 2)"
proof -
  define L :: "nat loader" where "L = \<lparr>dataset = \<lparr>ds_schema = [], ds_parts = [Inr [5, 7 :: nat]]\<rparr>,
      batch_size = 2, shuffle_on = False, parts_per_chunk = 1,
      global_size = 1, global_rank = 0, drop_last = False, indices = [0],
      sparse_names = [''seq''], sparse_max = [''seq'' \<mapsto> 5], sparse_as_dense = {},
      dtype_reverse_map = [], epochs = 1,
      cat_names = [], cont_names = [], label_names = [],
      num_rows_processed = 0, buff = None, batch_itr = None, workers = None\<rparr>"
  define vals :: "nat list" where "vals = [10, 11, 12, 13, 14, 15, 16, 17]"
  have h1: "sparse_max L ''seq'' = Some 5" by (simp add: L_def)
  have h2: "[0, 2 :: int] \<noteq> []" and h3: "[0, 4 :: int] \<noteq> []" by simp_all
  have m1: "Max (set (row_lengths vals [0, 2])) = 6"
    by (simp add: row_lengths_def diffs_def vals_def)
  have m2: "Max (set (row_lengths vals [0, 4])) = 4"
    by (simp add: row_lengths_def diffs_def vals_def)
  have a: "to_sparse_tensor L (ListPair vals [0, 2]) ''seq'' = Inl (ValueError (seq_len_message 5 6))"
    using to_sparse_tensor_spec [OF h1 h2, of vals] unfolding m1 by simp
  have b: "\<exists>t. to_sparse_tensor L (ListPair vals [0, 4]) ''seq'' = Inr t
      \<and> sp_seq_limit t = 5 \<and> sp_num_rows t = 2"
    using to_sparse_tensor_spec [OF h1 h3, of vals] unfolding m2 by auto
  show ?thesis using a b unfolding seq_len_message_5_6 L_def vals_def by simp
qed

subsection \<open>Which columns are sparse-materialized\<close>

lemma init_columns_sparse_names:
  "init_columns sch ld = Inr ld' \<Longrightarrow>
     sparse_names ld' = sparse_names ld @ map fst (filter (\<lambda>(name, spec). is_list spec) sch)"
proof (induction sch arbitrary: ld)
  case Nil
  then show ?case by simp
next
  case (Cons a sch)
  obtain name spec where a: "a = (name, spec)" by (cases a)
  from Cons.prems obtain ldm where
    "init_columns sch ldm = Inr ld'"
    and "sparse_names ldm = (if is_list spec then sparse_names ld @ [name] else sparse_names ld)"
    unfolding a
    by (auto simp: Let_def split: if_splits option.splits prod.splits)
  then show ?case using Cons.IH [of ldm] by (simp add: a)
qed

lemma init_columns_sparse_max:
  "distinct (map fst sch) \<Longrightarrow> init_columns sch ld = Inr ld' \<Longrightarrow>
     sparse_max ld' c =
       (case map_of sch c of
          None \<Rightarrow> sparse_max ld c
        | Some spec \<Rightarrow>
            (case value_count spec of
               None \<Rightarrow> sparse_max ld c
             | Some (vmin, vmax) \<Rightarrow>
                 if is_list spec \<and> vmin = vmax then Some vmax else sparse_max ld c))"
proof (induction sch arbitrary: ld)
  case Nil
  then show ?case by simp
next
  case (Cons a sch)
  obtain name spec where a: "a = (name, spec)" by (cases a)
  have d: "distinct (map fst sch)" and nin: "name \<notin> fst ` set sch"
    using Cons.prems(1) by (simp_all add: a)
  have mo: "map_of sch name = None" using nin by (simp add: map_of_eq_None_iff)
  from Cons.prems(2) obtain ldm where
    run: "init_columns sch ldm = Inr ld'"
    and sm: "sparse_max ldm =
      (case value_count spec of
         None \<Rightarrow> sparse_max ld
       | Some (vmin, vmax) \<Rightarrow>
           if is_list spec \<and> vmin = vmax then (sparse_max ld)(name \<mapsto> vmax) else sparse_max ld)"
    unfolding a
    by (auto simp: Let_def split: if_splits option.splits prod.splits)
  show ?case
  proof (cases "c = name")
    case True
    then show ?thesis
      using Cons.IH [OF d run] mo sm by (auto simp: a split: option.splits prod.splits)
  next
    case False
    then show ?thesis
      using Cons.IH [OF d run] sm by (auto simp: a split: option.splits prod.splits)
  qed
qed


lemma sparse_pass_result:
  "distinct cs \<Longrightarrow> sparse_pass ld cs X = Inr X' \<Longrightarrow>
     (c \<in> set cs \<and> c \<in> dom (sparse_max ld) \<longrightarrow>
        (\<exists>vo t. X c = Some vo \<and> to_sparse_tensor ld vo c = Inr t \<and> X' c = Some (Sparse t)))
     \<and> (\<not> (c \<in> set cs \<and> c \<in> dom (sparse_max ld)) \<longrightarrow> X' c = X c)"
proof (induction cs arbitrary: X)
  case Nil
  then show ?case by simp
next
  case (Cons c0 cs)
  have d: "distinct cs" and nin: "c0 \<notin> set cs" using Cons.prems(1) by simp_all
  show ?case
  proof (cases "c0 \<in> dom (sparse_max ld)")
    case False
    then have "sparse_pass ld cs X = Inr X'" using Cons.prems(2) by simp
    from Cons.IH [OF d this] False show ?thesis by auto
  next
    case True
    with Cons.prems(2) obtain vo t where
      vo: "X c0 = Some vo" and t: "to_sparse_tensor ld vo c0 = Inr t"
      and rest: "sparse_pass ld cs (X(c0 \<mapsto> Sparse t)) = Inr X'"
      by (auto split: option.splits sum.splits)
    note ih = Cons.IH [OF d rest]
    show ?thesis
    proof (cases "c = c0")
      case c: True
      have "X' c0 = Some (Sparse t)" using ih nin c by simp
      then show ?thesis using c True vo t by simp
    next
      case c: False
      then show ?thesis using ih by simp
    qed
  qed
qed

lemma init_columns_of_init:
  assumes "init ds bsz shuf ppc gsize grank dlast = Inr ld"
  shows "\<exists>ld1. init_columns (ds_schema ds)
        \<lparr>dataset = ds, batch_size = bsz, shuffle_on = shuf, parts_per_chunk = ppc,
         global_size = or_default gsize 1, global_rank = or_default grank 0,
         drop_last = dlast, indices = arange (npartitions ds),
         sparse_names = [], sparse_max = Map.empty, sparse_as_dense = {},
         dtype_reverse_map = [], epochs = 1,
         cat_names = [], cont_names = [], label_names = [],
         num_rows_processed = 0, buff = None, batch_itr = None, workers = None\<rparr> = Inr ld1
     \<and> sparse_names ld = sparse_names ld1 \<and> sparse_max ld = sparse_max ld1"
  using assms unfolding init_def Let_def
  by (auto split: sum.splits if_splits)

lemma init_sparse_columns:
  assumes "distinct (map fst (ds_schema ds))"
    and "init ds bsz shuf ppc gsize grank dlast = Inr ld"
  shows "distinct (sparse_names ld)"
    and "c \<in> sparse_columns ld \<longleftrightarrow>
      (\<exists>spec m. (c, spec) \<in> set (ds_schema ds) \<and> is_list spec \<and> value_count spec = Some (m, m))"
proof -
  define ld0 :: "'a loader" where "ld0 =
        \<lparr>dataset = ds, batch_size = bsz, shuffle_on = shuf, parts_per_chunk = ppc,
         global_size = or_default gsize 1, global_rank = or_default grank 0,
         drop_last = dlast, indices = arange (npartitions ds),
         sparse_names = [], sparse_max = Map.empty, sparse_as_dense = {},
         dtype_reverse_map = [], epochs = 1,
         cat_names = [], cont_names = [], label_names = [],
         num_rows_processed = 0, buff = None, batch_itr = None, workers = None\<rparr>"
  from init_columns_of_init [OF assms(2)] obtain ld1 where
    run: "init_columns (ds_schema ds) ld0 = Inr ld1"
    and r: "sparse_names ld = sparse_names ld1" "sparse_max ld = sparse_max ld1"
    unfolding ld0_def by blast
  have e: "sparse_names ld0 = []" "sparse_max ld0 c = None" by (simp_all add: ld0_def)
  have names: "sparse_names ld = map fst (filter (\<lambda>(name, spec). is_list spec) (ds_schema ds))"
    using init_columns_sparse_names [OF run] e r by simp
  show "distinct (sparse_names ld)"
    unfolding names using assms(1) by (rule distinct_map_filter)
  have mx: "sparse_max ld c =
       (case map_of (ds_schema ds) c of
          None \<Rightarrow> None
        | Some spec \<Rightarrow>
            (case value_count spec of
               None \<Rightarrow> None
             | Some (vmin, vmax) \<Rightarrow> if is_list spec \<and> vmin = vmax then Some vmax else None))"
    using init_columns_sparse_max [OF assms(1) run, of c] unfolding e(2) r(2) [symmetric] .
  have mo: "\<And>spec. (map_of (ds_schema ds) c = Some spec) = ((c, spec) \<in> set (ds_schema ds))"
    using assms(1) by simp
  show "c \<in> sparse_columns ld \<longleftrightarrow>
      (\<exists>spec m. (c, spec) \<in> set (ds_schema ds) \<and> is_list spec \<and> value_count spec = Some (m, m))"
  proof
    assume "c \<in> sparse_columns ld"
    then have "sparse_max ld c \<noteq> None" by (auto simp: sparse_columns_def)
    then show "\<exists>spec m. (c, spec) \<in> set (ds_schema ds) \<and> is_list spec \<and> value_count spec = Some (m, m)"
      unfolding mx using mo by (auto split: option.splits prod.splits if_splits)
  next
    assume "\<exists>spec m. (c, spec) \<in> set (ds_schema ds) \<and> is_list spec \<and> value_count spec = Some (m, m)"
    then obtain spec m where s: "(c, spec) \<in> set (ds_schema ds)" "is_list spec"
      "value_count spec = Some (m, m)" by blast
    have "map_of (ds_schema ds) c = Some spec" using s(1) mo by simp
    then have "sparse_max ld c = Some m" unfolding mx using s by simp
    moreover have "c \<in> set (sparse_names ld)"
      unfolding names using s by (force simp: image_iff)
    ultimately show "c \<in> sparse_columns ld" by (auto simp: sparse_columns_def)
  qed
qed


lemma handle_tensors_out:
  assumes "handle_tensors ld tensors names = Inr (Xf, lab)"
  shows "\<exists>X X'. collect_columns (zip tensors names) Map.empty = Inr X
     \<and> sparse_pass ld (sparse_names ld) X = Inr X'
     \<and> (if 0 < length (label_names ld) \<and> c = label_names ld ! 0 then lab else Xf c) = X' c"
  using assms unfolding handle_tensors_def
  by (auto split: sum.splits if_splits option.splits)

text \<open>
  Claim C10. For a loader built from a schema, a column is handed to \<^verbatim>\<open>_to_sparse_tensor\<close>
  by \<^verbatim>\<open>_handle_tensors\<close> exactly when it is a list column whose \<^verbatim>\<open>value_count\<close> exists with
  \<open>min = max\<close>: such a column comes out as the sparse tensor built from its entry, with
  the check against the maximum; any other column, a ragged list column without
  \<^verbatim>\<open>value_count\<close> or with \<open>min \<noteq> max\<close> among them, comes out as the entry it had, the
  plain \<^verbatim>\<open>(values, index)\<close> pair, with no check. (The label is looked up in the second
  component of the result.)
\<close>

theorem sparse_materialized_iff:
  assumes "distinct (map fst (ds_schema ds))"
    and "init ds bsz shuf ppc gsize grank dlast = Inr ld"
  shows "(c \<in> sparse_columns ld \<longleftrightarrow>
           (\<exists>spec m. (c, spec) \<in> set (ds_schema ds) \<and> is_list spec
                \<and> value_count spec = Some (m, m)))
    \<and> (handle_tensors ld tensors names = Inr (Xf, lab) \<longrightarrow>
         (\<exists>X. collect_columns (zip tensors names) Map.empty = Inr X
            \<and> (c \<in> sparse_columns ld \<longrightarrow>
                  (\<exists>vo t. X c = Some vo \<and> to_sparse_tensor ld vo c = Inr t
                     \<and> (if 0 < length (label_names ld) \<and> c = label_names ld ! 0
                         then lab else Xf c) = Some (Sparse t)))
            \<and> (c \<notin> sparse_columns ld \<longrightarrow>
                  (if 0 < length (label_names ld) \<and> c = label_names ld ! 0
                   then lab else Xf c) = X c)))"
proof (intro conjI impI)
  show "c \<in> sparse_columns ld \<longleftrightarrow>
           (\<exists>spec m. (c, spec) \<in> set (ds_schema ds) \<and> is_list spec
                \<and> value_count spec = Some (m, m))"
    using assms by (rule init_sparse_columns(2))
next
  assume h: "handle_tensors ld tensors names = Inr (Xf, lab)"
  define out where
    "out = (if 0 < length (label_names ld) \<and> c = label_names ld ! 0 then lab else Xf c)"
  from handle_tensors_out [OF h, of c] obtain X X' where
    col: "collect_columns (zip tensors names) Map.empty = Inr X"
    and sp: "sparse_pass ld (sparse_names ld) X = Inr X'"
    and o: "out = X' c"
    unfolding out_def by blast
  have d: "distinct (sparse_names ld)" using assms by (rule init_sparse_columns(1))
  note res = sparse_pass_result [OF d sp, of c]
  have a: "c \<in> sparse_columns ld \<longrightarrow>
      (\<exists>vo t. X c = Some vo \<and> to_sparse_tensor ld vo c = Inr t \<and> out = Some (Sparse t))"
    using res o by (simp add: sparse_columns_def)
  have b: "c \<notin> sparse_columns ld \<longrightarrow> out = X c"
    using res o by (simp add: sparse_columns_def)
  show "\<exists>X. collect_columns (zip tensors names) Map.empty = Inr X
            \<and> (c \<in> sparse_columns ld \<longrightarrow>
                  (\<exists>vo t. X c = Some vo \<and> to_sparse_tensor ld vo c = Inr t
                     \<and> (if 0 < length (label_names ld) \<and> c = label_names ld ! 0
                         then lab else Xf c) = Some (Sparse t)))
            \<and> (c \<notin> sparse_columns ld \<longrightarrow>
                  (if 0 < length (label_names ld) \<and> c = label_names ld ! 0
                   then lab else Xf c) = X c)"
    using col a b unfolding out_def by blast
qed


theorem sparse_materialized_iff_witness:
  "\<exists>ld Xf. init \<lparr>ds_schema =
         [(''a'', \<lparr>dtype = ''int64'', tags = [CATEGORICAL], is_list = True,
                   is_ragged = False, value_count = Some (3, 3)\<rparr>),
          (''b'', \<lparr>dtype = ''int64'', tags = [CATEGORICAL], is_list = True,
                   is_ragged = True, value_count = Some (0, 5)\<rparr>)],
        ds_parts = [Inr [5, 7 :: nat]]\<rparr> 2 False 1 None None False = Inr ld
     \<and> ''a'' \<in> sparse_columns ld \<and> ''b'' \<notin> sparse_columns ld
     \<and> handle_tensors ld
          [WithLists Absent [(''a'', ListPair [10, 11, 12, 13, 14, 15 :: nat] [0, 3]),
                             (''b'', ListPair [20, 21, 22, 23, 24, 25, 26] [0, 6])]]
          [[''a'', ''b'']] = Inr (Xf, None)
     \<and> Xf ''b'' = Some (ListPair [20, 21, 22, 23, 24, 25, 26] [0, 6])
     \<and> (\<exists>t. Xf ''a'' = Some (Sparse t))"
proof -
  define sa where "sa = \<lparr>dtype = ''int64'', tags = [CATEGORICAL], is_list = True,
                   is_ragged = False, value_count = Some (3 :: int, 3 :: int)\<rparr>"
  define sb where "sb = \<lparr>dtype = ''int64'', tags = [CATEGORICAL], is_list = True,
                   is_ragged = True, value_count = Some (0 :: int, 5 :: int)\<rparr>"
  define DS :: "nat dataset" where
    "DS = \<lparr>ds_schema = [(''a'', sa), (''b'', sb)], ds_parts = [Inr [5, 7 :: nat]]\<rparr>"
  define T :: "nat group list" where
    "T = [WithLists Absent [(''a'', ListPair [10, 11, 12, 13, 14, 15 :: nat] [0, 3]),
                             (''b'', ListPair [20, 21, 22, 23, 24, 25, 26] [0, 6])]]"
  have h1: "distinct (map fst (ds_schema DS))" by (simp add: DS_def)
  obtain L where L: "init DS 2 False 1 None None False = Inr L"
    and sn: "sparse_names L = [''a'', ''b'']"
    and sm: "sparse_max L = [''a'' \<mapsto> 3]"
    and sd: "sparse_as_dense L = {''a''}"
    and ln: "label_names L = []"
    by (simp add: init_def DS_def sa_def sb_def Let_def add_dtype_def select_by_tag_def)
  note t = sparse_materialized_iff [OF h1 L]
  have "\<exists>spec m. (''a'', spec) \<in> set (ds_schema DS) \<and> is_list spec
      \<and> value_count spec = Some (m, m)"
    by (intro exI [of _ sa] exI [of _ 3]) (simp add: DS_def sa_def)
  then have a: "''a'' \<in> sparse_columns L" using t [of "''a''", THEN conjunct1] by blast
  have "\<not> (\<exists>spec m. (''b'', spec) \<in> set (ds_schema DS) \<and> is_list spec
      \<and> value_count spec = Some (m, m))"
    by (auto simp: DS_def sa_def sb_def)
  then have b: "''b'' \<notin> sparse_columns L" using t [of "''b''", THEN conjunct1] by blast
  have col: "collect_columns (zip T [[''a'', ''b'']]) Map.empty =
      Inr [''a'' \<mapsto> ListPair [10, 11, 12, 13, 14, 15] [0, 3],
           ''b'' \<mapsto> ListPair [20, 21, 22, 23, 24, 25, 26] [0, 6]]"
    by (simp add: T_def dict_update_def Let_def)
  have mx: "Max (set (row_lengths [10, 11, 12, 13, 14, 15 :: nat] [0, 3])) = 3"
    by (simp add: row_lengths_def diffs_def)
  have rl: "row_lengths [10, 11, 12, 13, 14, 15 :: nat] [0, 3] = [3, 3]"
    by (simp add: row_lengths_def diffs_def)
  have ta: "to_sparse_tensor L (ListPair [10, 11, 12, 13, 14, 15 :: nat] [0, 3]) ''a'' =
      Inr (build_sparse_tensor [10, 11, 12, 13, 14, 15] [0, 3] [3, 3] 2 3 True)"
    by (simp add: to_sparse_tensor_def pull_values_offsets_def get_max_seq_len_def sm sd rl
        numeral_2_eq_2)
  have ht: "\<exists>Xf. handle_tensors L T [[''a'', ''b'']] = Inr (Xf, None)"
    by (simp add: handle_tensors_def col sn sm ta ln)
  then obtain Xf where Xf: "handle_tensors L T [[''a'', ''b'']] = Inr (Xf, None)" by blast
  from t [of "''b''" T "[[''a'', ''b'']]" Xf None, THEN conjunct2, THEN mp, OF Xf]
  have xb: "Xf ''b'' = Some (ListPair [20, 21, 22, 23, 24, 25, 26] [0, 6])"
    using b by (simp add: col ln)
  from t [of "''a''" T "[[''a'', ''b'']]" Xf None, THEN conjunct2, THEN mp, OF Xf]
  have xa: "\<exists>t. Xf ''a'' = Some (Sparse t)"
    using a by (auto simp: col ln)
  show ?thesis
    using L a b Xf xb xa unfolding DS_def sa_def sb_def T_def by blast
qed

end
